theory Spec2Isabelle
  imports Main
begin

section \<open>JavaScript values\<close>

text \<open>
  A JavaScript \<^verbatim>\<open>number\<close> is an IEEE double. The numbers of this program are the
  seeded quantities, the results of \<^verbatim>\<open>parseInt\<close> and differences of those: doubles
  whose value is an integer, the two infinities and \<^verbatim>\<open>NaN\<close>. \<open>Num n\<close> is the
  double whose value is the integer \<open>n\<close>; \<open>-0\<close> and \<open>0\<close> are one value
  (\<^verbatim>\<open>===\<close>, \<^verbatim>\<open>-\<close> against a quantity that is not zero, truthiness and
  \<^verbatim>\<open>toString\<close> do not tell them apart).
\<close>

datatype jsnum = Num int | NaN | PosInfinity | NegInfinity

text \<open>The number of binary digits of a positive integer.\<close>

function bitLength :: "int \<Rightarrow> nat" where
  "bitLength n = (if n \<le> 0 then 0 else Suc (bitLength (n div 2)))"
  by pat_completeness auto
termination
  by (relation "measure nat") auto

declare bitLength.simps [simp del]

text \<open>
  The double for a mathematical integer: the integer itself up to \<open>2 ^ 53\<close> in
  magnitude; beyond, the nearest double, which keeps the 53 leading binary digits (a tie
  goes to the even one), and an infinity when that reaches \<open>2 ^ 1024\<close>.
\<close>

definition toNumber :: "int \<Rightarrow> jsnum" where
  "toNumber n =
     (if \<bar>n\<bar> \<le> 2 ^ 53 then Num n
      else (let a = \<bar>n\<bar>;
                u = 2 ^ (bitLength a - 53);
                q = a div u;
                r = a mod u;
                m = (if u < 2 * r \<or> (2 * r = u \<and> odd q) then q + 1 else q);
                v = m * u
            in if 2 ^ 1024 \<le> v then (if n < 0 then NegInfinity else PosInfinity)
               else Num (if n < 0 then - v else v)))"

text \<open>
  The binary \<^verbatim>\<open>-\<close> of two numbers: the exact difference, rounded to a double.
  \<^verbatim>\<open>NaN\<close> is contagious, and the difference of equal infinities is \<^verbatim>\<open>NaN\<close>.
\<close>

fun js_sub :: "jsnum \<Rightarrow> jsnum \<Rightarrow> jsnum" where
  "js_sub (Num a) (Num b) = toNumber (a - b)"
| "js_sub NaN _ = NaN"
| "js_sub _ NaN = NaN"
| "js_sub PosInfinity PosInfinity = NaN"
| "js_sub NegInfinity NegInfinity = NaN"
| "js_sub PosInfinity _ = PosInfinity"
| "js_sub NegInfinity _ = NegInfinity"
| "js_sub (Num a) PosInfinity = NegInfinity"
| "js_sub (Num a) NegInfinity = PosInfinity"

text \<open>
  \<^verbatim>\<open>a === b\<close> (and \<^verbatim>\<open>a == b\<close>) on two numbers: \<^verbatim>\<open>NaN\<close> equals nothing,
  itself included.
\<close>

fun strictEquals :: "jsnum \<Rightarrow> jsnum \<Rightarrow> bool" where
  "strictEquals NaN _ = False"
| "strictEquals _ NaN = False"
| "strictEquals a b = (a = b)"

text \<open>
  A string is its list of code units; a \<^typ>\<open>char\<close> is a code unit below 256.
  \<open>isWhiteSpace\<close> is ECMAScript's \<^verbatim>\<open>StrWhiteSpaceChar\<close> on that range: TAB, LF,
  VT, FF, CR, SP and NBSP.
\<close>

definition isWhiteSpace :: "char \<Rightarrow> bool" where
  "isWhiteSpace c = ((of_char c :: int) \<in> {9, 10, 11, 12, 13, 32, 160})"

text \<open>\<^verbatim>\<open>String.prototype.trim\<close>: white space removed at both ends.\<close>

definition trim :: "string \<Rightarrow> string" where
  "trim s = rev (dropWhile isWhiteSpace (rev (dropWhile isWhiteSpace s)))"

text \<open>
  The value of a code unit as a digit: \<open>0-9\<close>, then \<open>a-z\<close> and \<open>A-Z\<close> for
  10 to 35; 36 (a digit of no radix) for every other code unit.
\<close>

definition digitValue :: "char \<Rightarrow> int" where
  "digitValue c =
     (let n = (of_char c :: int) in
      if 48 \<le> n \<and> n \<le> 57 then n - 48
      else if 97 \<le> n \<and> n \<le> 122 then n - 87
      else if 65 \<le> n \<and> n \<le> 90 then n - 55
      else 36)"

text \<open>The integer that a string of radix-\<open>R\<close> digits represents.\<close>

definition digitsValue :: "int \<Rightarrow> string \<Rightarrow> int" where
  "digitsValue R Z = foldl (\<lambda>a c. a * R + digitValue c) 0 Z"

text \<open>The significant digits of a run of digits: those from the first that is not 0.\<close>

definition significantDigits :: "string \<Rightarrow> string" where
  "significantDigits Z = dropWhile (\<lambda>c. c = CHR ''0'') Z"

text \<open>
  \<^verbatim>\<open>parseInt(string)\<close> with no radix argument, step by step as ECMAScript
  specifies it: leading white space is dropped, one sign is read, the prefix
  \<^verbatim>\<open>0x\<close> or \<^verbatim>\<open>0X\<close> switches to radix 16, the longest run of digits of the
  radix is taken, an empty run gives \<^verbatim>\<open>NaN\<close>, and the result is the double for the
  signed integer of the run. For a decimal run of more than 20 significant digits
  ECMAScript lets the implementation take the digits after the 20th as 0; the integer
  that the implementation takes for such a run is the parameter \<open>approx\<close>.
\<close>

definition parseInt :: "(string \<Rightarrow> int) \<Rightarrow> string \<Rightarrow> jsnum" where
  "parseInt approx inputString =
     (let S = dropWhile isWhiteSpace inputString;
          sign = (if S \<noteq> [] \<and> hd S = CHR ''-'' then - 1 else (1 :: int));
          S1 = (if S \<noteq> [] \<and> (hd S = CHR ''+'' \<or> hd S = CHR ''-'') then tl S else S);
          hex = (2 \<le> length S1 \<and> (take 2 S1 = ''0x'' \<or> take 2 S1 = ''0X''));
          S2 = (if hex then drop 2 S1 else S1);
          R = (if hex then 16 else 10);
          Z = takeWhile (\<lambda>c. digitValue c < R) S2;
          mathInt = (if R = 10 \<and> 20 < length (significantDigits Z) then approx Z
                     else digitsValue R Z)
      in if Z = [] then NaN else toNumber (sign * mathInt))"

text \<open>Decimal digits of an integer that is not negative, most significant first.\<close>

function digits10 :: "int \<Rightarrow> string" where
  "digits10 n =
     (if n < 10 then [''0123456789'' ! nat n]
      else digits10 (n div 10) @ [''0123456789'' ! nat (n mod 10)])"
  by pat_completeness auto
termination
  by (relation "measure nat") auto

declare digits10.simps [simp del]

text \<open>
  \<^verbatim>\<open>Number.prototype.toString()\<close>. An integer up to \<open>2 ^ 53\<close> in magnitude is
  written with its decimal digits. Beyond, the string is made of the shortest digits
  that read back as the same double, followed by zeros or, from \<open>10 ^ 21\<close> on, by
  an exponent; that string, for the magnitude, is the parameter \<open>expo\<close>.
\<close>

fun Number_toString :: "(int \<Rightarrow> string) \<Rightarrow> jsnum \<Rightarrow> string" where
  "Number_toString expo NaN = ''NaN''"
| "Number_toString expo PosInfinity = ''Infinity''"
| "Number_toString expo NegInfinity = ''-Infinity''"
| "Number_toString expo (Num n) =
     (let a = \<bar>n\<bar>;
          s = (if a \<le> 2 ^ 53 then digits10 a else expo a)
      in if n < 0 then CHR ''-'' # s else s)"

text \<open>\<^verbatim>\<open>s.padStart(w, '0')\<close>.\<close>

definition padStart0 :: "nat \<Rightarrow> string \<Rightarrow> string" where
  "padStart0 w s = replicate (w - length s) (CHR ''0'') @ s"

section \<open>The stock take sheets screen\<close>

subsection \<open>Data\<close>

datatype Status = Draft | InProgress | Completed

datatype Tab = SheetTab | ItemTab

text \<open>
  The interface \<^verbatim>\<open>StockSheet\<close>; its fields carry the prefix \<open>sheet_\<close>, since
  \<^verbatim>\<open>StockItem\<close> has fields of the same names.
\<close>

record StockSheet =
  sheet_id :: string
  sheet_sheetId :: string
  sheet_date :: string
  sheet_location :: string
  sheet_createdBy :: string
  sheet_status :: Status
  sheet_totalItems :: jsnum
  sheet_discrepancies :: jsnum
  sheet_expanded :: bool

text \<open>
  The interface \<^verbatim>\<open>StockItem\<close>. The field \<^verbatim>\<open>id\<close> is \<open>id'\<close> here;
  \<^verbatim>\<open>countedQuantity: number | null\<close> is an option.
\<close>

record StockItem =
  id' :: string
  sheetId :: string
  category :: string
  itemName :: string
  itemDescription :: string
  location :: string
  systemQuantity :: jsnum
  countedQuantity :: "jsnum option"
  unit :: string
  variance :: jsnum

text \<open>
  Item objects live in a store, so that an object instance is told from a copy of it: a
  reference is an index into the store, a new object is appended, and no object is ever
  written in place (the screen only builds new objects with the spread syntax). The
  array \<^verbatim>\<open>items\<close> and the state \<^verbatim>\<open>selectedItem\<close> hold references. A
  reference of the program always designates an object; the statements below say so of
  the references they read (each is below the length of the store).
\<close>

type_synonym ref = nat

record ViewState =
  heap :: "StockItem list"
  activeTab :: Tab
  modalVisible :: bool
  selectedItem :: "ref option"
  countInput :: string
  expandedLocations :: "string list"
  sheets :: "StockSheet list"
  items :: "ref list"
  alerts :: "(string \<times> string) list"

text \<open>The seeded mock data of \<^verbatim>\<open>useState\<close>.\<close>

definition seedSheets :: "StockSheet list" where
  "seedSheets =
     [\<lparr>sheet_id = ''1'', sheet_sheetId = ''ST-202507000001'', sheet_date = ''07/22/2025'',
       sheet_location = ''Warehouse A'', sheet_createdBy = ''JOJO'', sheet_status = InProgress,
       sheet_totalItems = Num 5, sheet_discrepancies = Num 2, sheet_expanded = False\<rparr>,
      \<lparr>sheet_id = ''2'', sheet_sheetId = ''ST-202507000002'', sheet_date = ''07/21/2025'',
       sheet_location = ''Warehouse B'', sheet_createdBy = ''ADMIN'', sheet_status = Completed,
       sheet_totalItems = Num 8, sheet_discrepancies = Num 1, sheet_expanded = False\<rparr>,
      \<lparr>sheet_id = ''3'', sheet_sheetId = ''ST-202507000003'', sheet_date = ''07/20/2025'',
       sheet_location = ''Warehouse A'', sheet_createdBy = ''JOJO'', sheet_status = Draft,
       sheet_totalItems = Num 3, sheet_discrepancies = Num 0, sheet_expanded = False\<rparr>]"

definition seedItems :: "StockItem list" where
  "seedItems =
     [\<lparr>id' = ''1'', sheetId = ''ST-202507000001'', category = ''FURNITURE'',
       itemName = ''Brake Disc with Granite Slab'',
       itemDescription = ''Solar Inverter with LDPE Film finish'',
       location = ''Warehouse A'', systemQuantity = Num 100, countedQuantity = Some (Num 98),
       unit = ''UNIT'', variance = Num (- 2)\<rparr>,
      \<lparr>id' = ''2'', sheetId = ''ST-202507000001'', category = ''ELECTRONICS'',
       itemName = ''Industrial Motor Controller'',
       itemDescription = ''Heavy duty motor controller with cooling system'',
       location = ''Warehouse A'', systemQuantity = Num 25, countedQuantity = None,
       unit = ''PCS'', variance = Num 0\<rparr>,
      \<lparr>id' = ''3'', sheetId = ''ST-202507000002'', category = ''RAW MATERIAL'',
       itemName = ''Steel Rod Bundle'',
       itemDescription = ''Premium steel rods for construction'',
       location = ''Warehouse B'', systemQuantity = Num 50, countedQuantity = Some (Num 52),
       unit = ''BUNDLE'', variance = Num 2\<rparr>,
      \<lparr>id' = ''4'', sheetId = ''ST-202507000001'', category = ''TOOLS'',
       itemName = ''Precision Drill Set'',
       itemDescription = ''Professional drill set with case'',
       location = ''Warehouse A'', systemQuantity = Num 15, countedQuantity = None,
       unit = ''SET'', variance = Num 0\<rparr>,
      \<lparr>id' = ''5'', sheetId = ''ST-202507000002'', category = ''SAFETY'',
       itemName = ''Safety Helmet'',
       itemDescription = ''Industrial safety helmet with chin strap'',
       location = ''Warehouse B'', systemQuantity = Num 200, countedQuantity = Some (Num 195),
       unit = ''PCS'', variance = Num (- 5)\<rparr>]"

definition initialState :: ViewState where
  "initialState =
     \<lparr>heap = seedItems, activeTab = SheetTab, modalVisible = False, selectedItem = None,
      countInput = '''', expandedLocations = [''Warehouse A''], sheets = seedSheets,
      items = [0, 1, 2, 3, 4], alerts = []\<rparr>"

subsection \<open>Operations\<close>

definition setActiveTab :: "Tab \<Rightarrow> ViewState \<Rightarrow> ViewState" where
  "setActiveTab t s = s\<lparr>activeTab := t\<rparr>"

definition toggleSheetExpansion :: "string \<Rightarrow> ViewState \<Rightarrow> ViewState" where
  "toggleSheetExpansion sheetId' s =
     s\<lparr>sheets := map (\<lambda>sheet. if sheet_id sheet = sheetId'
                               then sheet\<lparr>sheet_expanded := \<not> sheet_expanded sheet\<rparr>
                               else sheet) (sheets s)\<rparr>"

text \<open>The updater that \<^verbatim>\<open>toggleLocationExpansion\<close> passes to the state setter.\<close>

definition toggleLocation :: "string \<Rightarrow> string list \<Rightarrow> string list" where
  "toggleLocation loc prev =
     (if loc \<in> set prev then filter (\<lambda>l. l \<noteq> loc) prev else prev @ [loc])"

definition toggleLocationExpansion :: "string \<Rightarrow> ViewState \<Rightarrow> ViewState" where
  "toggleLocationExpansion loc s = s\<lparr>expandedLocations := toggleLocation loc (expandedLocations s)\<rparr>"

text \<open>
  \<^verbatim>\<open>item.countedQuantity?.toString() || item.systemQuantity.toString()\<close>: the
  left operand is \<^verbatim>\<open>undefined\<close> for an uncounted item, and \<^verbatim>\<open>||\<close> keeps a
  string that is not empty.
\<close>

definition openCountModal :: "(int \<Rightarrow> string) \<Rightarrow> ref \<Rightarrow> ViewState \<Rightarrow> ViewState" where
  "openCountModal expo r s =
     (let item = heap s ! r;
          shown = (case countedQuantity item of
                     None \<Rightarrow> Number_toString expo (systemQuantity item)
                   | Some c \<Rightarrow> (if Number_toString expo c \<noteq> [] then Number_toString expo c
                               else Number_toString expo (systemQuantity item)))
      in s\<lparr>selectedItem := Some r, countInput := shown, modalVisible := True\<rparr>)"

text \<open>The text input of the modal: \<^verbatim>\<open>onChangeText={setCountInput}\<close>.\<close>

definition setCountInput :: "string \<Rightarrow> ViewState \<Rightarrow> ViewState" where
  "setCountInput v s = s\<lparr>countInput := v\<rparr>"

text \<open>The Cancel button and \<^verbatim>\<open>onRequestClose\<close>: \<^verbatim>\<open>setModalVisible(false)\<close>.\<close>

definition cancelModal :: "ViewState \<Rightarrow> ViewState" where
  "cancelModal s = s\<lparr>modalVisible := False\<rparr>"

text \<open>
  The \<^verbatim>\<open>prev.map(...)\<close> of \<^verbatim>\<open>saveCount\<close>, threading the store: an item whose
  \<^verbatim>\<open>id\<close> is the selected one's is replaced by a new object
  \<^verbatim>\<open>{ ...item, countedQuantity: newCount, variance: newVariance }\<close>; for every
  other item the callback returns the item itself.
\<close>

fun replaceCount :: "string \<Rightarrow> jsnum \<Rightarrow> jsnum \<Rightarrow> StockItem list \<Rightarrow> ref list
    \<Rightarrow> StockItem list \<times> ref list" where
  "replaceCount sid newCount newVariance h [] = (h, [])"
| "replaceCount sid newCount newVariance h (r # rs) =
     (if id' (h ! r) = sid
      then (let (h', rs') = replaceCount sid newCount newVariance
                  (h @ [(h ! r)\<lparr>countedQuantity := Some newCount, variance := newVariance\<rparr>]) rs
            in (h', length h # rs'))
      else (let (h', rs') = replaceCount sid newCount newVariance h rs
            in (h', r # rs')))"

text \<open>
  \<^verbatim>\<open>saveCount\<close>. The guard \<^verbatim>\<open>selectedItem && countInput\<close> holds for a selected
  item and an input that is not the empty string.
\<close>

definition saveCount :: "(string \<Rightarrow> int) \<Rightarrow> ViewState \<Rightarrow> ViewState" where
  "saveCount approx s =
     (case selectedItem s of
        None \<Rightarrow> s
      | Some sel \<Rightarrow>
          if countInput s = [] then s
          else
            (let newCount = parseInt approx (countInput s);
                 newVariance = js_sub newCount (systemQuantity (heap s ! sel));
                 (h', items') = replaceCount (id' (heap s ! sel)) newCount newVariance
                                  (heap s) (items s)
             in s\<lparr>heap := h', items := items', modalVisible := False, selectedItem := None,
                  countInput := '''',
                  alerts := alerts s @ [(''Success'', ''Count updated successfully'')]\<rparr>))"

subsection \<open>Grouping by location\<close>

datatype js_error = TypeError | RangeError

text \<open>
  \<^verbatim>\<open>groupedItems\<close> is built in a plain object \<^verbatim>\<open>{}\<close>. Such an object is
  the list of its own properties in the order of their creation, and it inherits the
  properties of \<^verbatim>\<open>Object.prototype\<close>, whose names are these (each holds a function,
  \<^verbatim>\<open>__proto__\<close> holds the prototype itself: values that are truthy and have no
  \<^verbatim>\<open>push\<close>).
\<close>

definition objectPrototypeKeys :: "string list" where
  "objectPrototypeKeys =
     [''constructor'', ''hasOwnProperty'', ''isPrototypeOf'', ''propertyIsEnumerable'',
      ''toLocaleString'', ''toString'', ''valueOf'', ''__proto__'', ''__defineGetter__'',
      ''__defineSetter__'', ''__lookupGetter__'', ''__lookupSetter__'']"

text \<open>What \<^verbatim>\<open>acc[key]\<close> reads: an own array, an inherited value, or \<^verbatim>\<open>undefined\<close>.\<close>

datatype 'v property = Own 'v | Inherited | Undefined

definition getProperty :: "(string \<times> 'v) list \<Rightarrow> string \<Rightarrow> 'v property" where
  "getProperty obj key =
     (case map_of obj key of
        Some v \<Rightarrow> Own v
      | None \<Rightarrow> if key \<in> set objectPrototypeKeys then Inherited else Undefined)"

text \<open>
  \<^verbatim>\<open>acc[key] = v\<close> on an own or a missing property: an own property keeps its
  place, a new one is created last.
\<close>

fun setProperty :: "string \<Rightarrow> 'v \<Rightarrow> (string \<times> 'v) list \<Rightarrow> (string \<times> 'v) list" where
  "setProperty key v [] = [(key, v)]"
| "setProperty key v ((k, w) # obj) =
     (if k = key then (key, v) # obj else (k, w) # setProperty key v obj)"

text \<open>
  The callback of \<^verbatim>\<open>items.reduce\<close>: \<^verbatim>\<open>if (!acc[item.location]) acc[item.location] = [];\<close>
  then \<^verbatim>\<open>acc[item.location].push(item)\<close>. An array is truthy, also when empty, and so
  is every inherited value; calling the missing \<^verbatim>\<open>push\<close> of an inherited value
  throws a \<^verbatim>\<open>TypeError\<close>.
\<close>

definition groupStep :: "StockItem list \<Rightarrow> (string \<times> ref list) list \<Rightarrow> ref
    \<Rightarrow> js_error + (string \<times> ref list) list" where
  "groupStep h acc item =
     (let loc = location (h ! item);
          acc1 = (if getProperty acc loc = Undefined then setProperty loc [] acc else acc)
      in case getProperty acc1 loc of
           Own arr \<Rightarrow> Inr (setProperty loc (arr @ [item]) acc1)
         | Inherited \<Rightarrow> Inl TypeError
         | Undefined \<Rightarrow> Inl TypeError)"

fun reduceItems :: "StockItem list \<Rightarrow> (string \<times> ref list) list \<Rightarrow> ref list
    \<Rightarrow> js_error + (string \<times> ref list) list" where
  "reduceItems h acc [] = Inr acc"
| "reduceItems h acc (item # rest) =
     (case groupStep h acc item of
        Inl err \<Rightarrow> Inl err
      | Inr acc' \<Rightarrow> reduceItems h acc' rest)"

definition groupedItems :: "StockItem list \<Rightarrow> ref list \<Rightarrow> js_error + (string \<times> ref list) list" where
  "groupedItems h its = reduceItems h [] its"

text \<open>
  A property name is an array index when it is the canonical decimal numeral of an
  integer from 0 to \<open>2^32 - 2\<close>.
\<close>

definition isArrayIndex :: "string \<Rightarrow> bool" where
  "isArrayIndex k =
     (k \<noteq> [] \<and> list_all (\<lambda>c. digitValue c < 10) k \<and> (k = ''0'' \<or> hd k \<noteq> CHR ''0'')
      \<and> digitsValue 10 k \<le> 4294967294)"

text \<open>
  \<^verbatim>\<open>Object.entries\<close> lists the own properties in the order of
  \<^verbatim>\<open>OrdinaryOwnPropertyKeys\<close>: the array indices in ascending numeric order, then
  the other names in the order of their creation. The item tab renders one section for
  each entry, in this order.
\<close>

definition ObjectEntries :: "(string \<times> 'v) list \<Rightarrow> (string \<times> 'v) list" where
  "ObjectEntries obj =
     sort_key (\<lambda>kv. digitsValue 10 (fst kv)) (filter (\<lambda>kv. isArrayIndex (fst kv)) obj)
     @ filter (\<lambda>kv. \<not> isArrayIndex (fst kv)) obj"

text \<open>
  The order in which the values of a list are first seen; the reference order that the
  grouping is compared with.
\<close>

fun firstSeen :: "'a list \<Rightarrow> 'a list" where
  "firstSeen [] = []"
| "firstSeen (x # xs) = x # filter (\<lambda>y. y \<noteq> x) (firstSeen xs)"

section \<open>Dates\<close>

text \<open>
  A valid \<^verbatim>\<open>Date\<close> is its time value, the milliseconds since the epoch in UTC;
  an operation that can give an invalid \<^verbatim>\<open>Date\<close> returns an option, \<open>None\<close>
  for the invalid one (time value \<^verbatim>\<open>NaN\<close>). The functions below are those of
  ECMAScript's chapter on \<^verbatim>\<open>Date\<close> objects. The current time is a parameter
  \<open>now\<close>, and so is the local time zone.
\<close>

type_synonym Date = int

definition msPerDay :: int where
  "msPerDay = 86400000"

definition Day :: "int \<Rightarrow> int" where
  "Day t = t div msPerDay"

definition TimeWithinDay :: "int \<Rightarrow> int" where
  "TimeWithinDay t = t mod msPerDay"

definition DaysInYear :: "int \<Rightarrow> int" where
  "DaysInYear y =
     (if y mod 4 \<noteq> 0 then 365 else if y mod 100 \<noteq> 0 then 366
      else if y mod 400 \<noteq> 0 then 365 else 366)"

definition DayFromYear :: "int \<Rightarrow> int" where
  "DayFromYear y = 365 * (y - 1970) + (y - 1969) div 4 - (y - 1901) div 100 + (y - 1601) div 400"

text \<open>
  The year of a day number: ECMAScript asks for the largest \<open>y\<close> with
  \<open>DayFromYear y \<le> d\<close>; this is the usual computation of it by cycles of 400, 100, 4
  and 1 years counted from 1 January of year 1 (lemma \<open>YearFromDay_correct\<close>).
\<close>

definition YearFromDay :: "int \<Rightarrow> int" where
  "YearFromDay d =
     (let n = d + 719162;
          n400 = n div 146097; r = n mod 146097;
          n100 = min (r div 36524) 3; r2 = r - n100 * 36524;
          n4 = r2 div 1461; r3 = r2 mod 1461;
          n1 = min (r3 div 365) 3
      in 400 * n400 + 100 * n100 + 4 * n4 + n1 + 1)"

definition YearFromTime :: "int \<Rightarrow> int" where
  "YearFromTime t = YearFromDay (Day t)"

definition leapOfYear :: "int \<Rightarrow> int" where
  "leapOfYear y = (if DaysInYear y = 366 then 1 else 0)"

definition InLeapYear :: "int \<Rightarrow> int" where
  "InLeapYear t = leapOfYear (YearFromTime t)"

definition DayWithinYear :: "int \<Rightarrow> int" where
  "DayWithinYear t = Day t - DayFromYear (YearFromTime t)"

text \<open>The day within the year on which month \<open>mn\<close> (0 to 11) begins; 12 gives the year's length.\<close>

definition firstDayOfMonth :: "int \<Rightarrow> int \<Rightarrow> int" where
  "firstDayOfMonth leap mn =
     (if mn = 0 then 0 else if mn = 1 then 31 else if mn = 2 then 59 + leap
      else if mn = 3 then 90 + leap else if mn = 4 then 120 + leap
      else if mn = 5 then 151 + leap else if mn = 6 then 181 + leap
      else if mn = 7 then 212 + leap else if mn = 8 then 243 + leap
      else if mn = 9 then 273 + leap else if mn = 10 then 304 + leap
      else if mn = 11 then 334 + leap else 365 + leap)"

definition MonthFromTime :: "int \<Rightarrow> int" where
  "MonthFromTime t =
     (let d = DayWithinYear t; leap = InLeapYear t
      in if d < 31 then 0 else if d < 59 + leap then 1 else if d < 90 + leap then 2
         else if d < 120 + leap then 3 else if d < 151 + leap then 4
         else if d < 181 + leap then 5 else if d < 212 + leap then 6
         else if d < 243 + leap then 7 else if d < 273 + leap then 8
         else if d < 304 + leap then 9 else if d < 334 + leap then 10 else 11)"

definition DateFromTime :: "int \<Rightarrow> int" where
  "DateFromTime t = DayWithinYear t - firstDayOfMonth (InLeapYear t) (MonthFromTime t) + 1"

definition WeekDay :: "int \<Rightarrow> int" where
  "WeekDay t = (Day t + 4) mod 7"

definition MakeDay :: "int \<Rightarrow> int \<Rightarrow> int \<Rightarrow> int" where
  "MakeDay year month date' =
     (let ym = year + month div 12; mn = month mod 12
      in DayFromYear ym + firstDayOfMonth (leapOfYear ym) mn + date' - 1)"

definition MakeDate :: "int \<Rightarrow> int \<Rightarrow> int" where
  "MakeDate day' time = day' * msPerDay + time"

text \<open>
  The local time zone is ECMAScript's \<^verbatim>\<open>LocalTZA(t, isUTC)\<close>, the offset of
  local time from UTC in milliseconds: \<open>offsetAtUTC\<close> at a UTC time value, and
  \<open>offsetAtLocal\<close> at a local time value. Where a zone changes its offset, a local
  time that the change skips or repeats is read with the offset before the change.
\<close>

record TimeZone =
  offsetAtUTC :: "int \<Rightarrow> int"
  offsetAtLocal :: "int \<Rightarrow> int"

definition LocalTime :: "TimeZone \<Rightarrow> int \<Rightarrow> int" where
  "LocalTime tz t = t + offsetAtUTC tz t"

definition UTC :: "TimeZone \<Rightarrow> int \<Rightarrow> int" where
  "UTC tz t = t - offsetAtLocal tz t"

text \<open>
  A zone that keeps one offset, and a zone that changes its offset once, from
  \<open>earlier\<close> to \<open>later\<close> at the UTC time \<open>at\<close>.
\<close>

definition fixedZone :: "int \<Rightarrow> TimeZone" where
  "fixedZone tza = \<lparr>offsetAtUTC = (\<lambda>t. tza), offsetAtLocal = (\<lambda>t. tza)\<rparr>"

definition stepZone :: "int \<Rightarrow> int \<Rightarrow> int \<Rightarrow> TimeZone" where
  "stepZone earlier later at =
     \<lparr>offsetAtUTC = (\<lambda>t. if t < at then earlier else later),
      offsetAtLocal = (\<lambda>t. if t < at + max earlier later then earlier else later)\<rparr>"

text \<open>\<^verbatim>\<open>TimeClip\<close>: a time value beyond \<open>8.64 * 10 ^ 15\<close> is no date.\<close>

definition maxTime :: int where
  "maxTime = 8640000000000000"

definition TimeClip :: "int \<Rightarrow> Date option" where
  "TimeClip t = (if \<bar>t\<bar> \<le> maxTime then Some t else None)"

text \<open>
  \<^verbatim>\<open>new Date(year, month, date)\<close>: a year from 0 to 99 stands for 1900 plus it;
  the fields are read in local time.
\<close>

definition newDate :: "TimeZone \<Rightarrow> int \<Rightarrow> int \<Rightarrow> int \<Rightarrow> Date option" where
  "newDate tz year month date' =
     (let yr = (if 0 \<le> year \<and> year \<le> 99 then 1900 + year else year)
      in TimeClip (UTC tz (MakeDate (MakeDay yr month date') 0)))"

definition getFullYear :: "TimeZone \<Rightarrow> Date \<Rightarrow> int" where
  "getFullYear tz d = YearFromTime (LocalTime tz d)"

definition getMonth :: "TimeZone \<Rightarrow> Date \<Rightarrow> int" where
  "getMonth tz d = MonthFromTime (LocalTime tz d)"

definition getDate :: "TimeZone \<Rightarrow> Date \<Rightarrow> int" where
  "getDate tz d = DateFromTime (LocalTime tz d)"

definition getDay :: "TimeZone \<Rightarrow> Date \<Rightarrow> int" where
  "getDay tz d = WeekDay (LocalTime tz d)"

text \<open>\<^verbatim>\<open>d.setDate(dt)\<close> on a valid date, as the new time value of \<open>d\<close>.\<close>

definition setDate :: "TimeZone \<Rightarrow> Date \<Rightarrow> int \<Rightarrow> Date option" where
  "setDate tz d dt =
     (let t = LocalTime tz d
      in TimeClip (UTC tz (MakeDate (MakeDay (YearFromTime t) (MonthFromTime t) dt)
                             (TimeWithinDay t))))"

text \<open>\<^verbatim>\<open>d.setHours(0, 0, 0, 0)\<close> on a valid date, as the new time value of \<open>d\<close>.\<close>

definition setHoursZero :: "TimeZone \<Rightarrow> Date \<Rightarrow> Date option" where
  "setHoursZero tz d = TimeClip (UTC tz (MakeDate (Day (LocalTime tz d)) 0))"

text \<open>
  \<^verbatim>\<open>d.toISOString()\<close> on a valid date: the UTC fields; a year outside 0 to 9999 is
  written with a sign and six digits. On an invalid date it throws a \<^verbatim>\<open>RangeError\<close>.
\<close>

definition pad :: "nat \<Rightarrow> int \<Rightarrow> string" where
  "pad w n = padStart0 w (digits10 n)"

definition toISOString :: "Date \<Rightarrow> string" where
  "toISOString t =
     (let y = YearFromTime t;
          yearString = (if 0 \<le> y \<and> y \<le> 9999 then pad 4 y
                        else (if y < 0 then CHR ''-'' else CHR ''+'') # pad 6 (abs y))
      in yearString @ ''-'' @ pad 2 (MonthFromTime t + 1) @ ''-'' @ pad 2 (DateFromTime t)
         @ ''T'' @ pad 2 (t div 3600000 mod 24) @ '':'' @ pad 2 (t div 60000 mod 60)
         @ '':'' @ pad 2 (t div 1000 mod 60) @ ''.'' @ pad 3 (t mod 1000) @ ''Z'')"

text \<open>\<^verbatim>\<open>d.toISOString().split('T')[0]\<close>: what stands before the first \<^verbatim>\<open>T\<close>.\<close>

definition isoDatePart :: "Date \<Rightarrow> string" where
  "isoDatePart d = takeWhile (\<lambda>c. c \<noteq> CHR ''T'') (toISOString d)"

text \<open>
  \<^verbatim>\<open>new Date(string)\<close>. A string of the date-only form \<^verbatim>\<open>YYYY-MM-DD\<close> with a
  month from 01 to 12 and a day of that month is midnight of that date in UTC. What any
  other string gives is left to the implementation by ECMAScript, or is another form of
  the date-time format; it is the parameter \<open>implParse\<close>. \<open>None\<close> is an invalid date.
\<close>

definition parseISODate :: "string \<Rightarrow> Date option" where
  "parseISODate s =
     (if length s = 10 \<and> s ! 4 = CHR ''-'' \<and> s ! 7 = CHR ''-''
         \<and> list_all (\<lambda>c. digitValue c < 10) (take 4 s @ take 2 (drop 5 s) @ drop 8 s)
      then (let y = digitsValue 10 (take 4 s);
                m = digitsValue 10 (take 2 (drop 5 s));
                d = digitsValue 10 (drop 8 s)
            in if 1 \<le> m \<and> m \<le> 12 \<and> 1 \<le> d
                  \<and> d \<le> firstDayOfMonth (leapOfYear y) m - firstDayOfMonth (leapOfYear y) (m - 1)
               then Some (MakeDate (MakeDay y (m - 1) d) 0) else None)
      else None)"

definition newDateOfString :: "(string \<Rightarrow> Date option) \<Rightarrow> string \<Rightarrow> Date option" where
  "newDateOfString implParse s =
     (case parseISODate s of Some t \<Rightarrow> Some t | None \<Rightarrow> implParse s)"

text \<open>\<^verbatim>\<open>a < b\<close> on two dates: false when one is invalid (\<^verbatim>\<open>NaN\<close>).\<close>

definition dateLess :: "Date option \<Rightarrow> Date option \<Rightarrow> bool" where
  "dateLess a b = (case a of None \<Rightarrow> False
                   | Some t \<Rightarrow> (case b of None \<Rightarrow> False | Some u \<Rightarrow> t < u))"

section \<open>The sheet creation screen\<close>

subsection \<open>Data\<close>

text \<open>
  \<^verbatim>\<open>FormData\<close> and \<^verbatim>\<open>FormErrors\<close>. The field \<^verbatim>\<open>location\<close> of the form is
  \<open>formLocation\<close>; the optional field \<^verbatim>\<open>f\<close> of \<^verbatim>\<open>FormErrors\<close> is \<open>fError\<close>,
  \<open>None\<close> when the key is absent.
\<close>

record FormData =
  sheetName :: string
  description :: string
  formLocation :: string
  createdBy :: string
  scheduledDate :: string

record FormErrors =
  sheetNameError :: "string option"
  locationError :: "string option"
  createdByError :: "string option"
  scheduledDateError :: "string option"

datatype Field = SheetNameField | DescriptionField | LocationField | CreatedByField
  | ScheduledDateField

record CalendarDay =
  date :: Date
  day :: int
  isCurrentMonth :: bool
  isToday :: bool
  isPast :: bool
  isSelected :: bool
  dateString :: string

record CreateState =
  loading :: bool
  formData :: FormData
  errors :: FormErrors
  selectedTemplate :: string
  showLocationModal :: bool
  showCalendar :: bool
  calendarDate :: "Date option"
  notices :: "(string \<times> string) list"

text \<open>The locations that the form offers.\<close>

definition locations :: "string list" where
  "locations = [''Warehouse A'', ''Warehouse B'', ''Warehouse C'', ''Storage Room 1'',
                ''Storage Room 2'']"

definition noErrors :: FormErrors where
  "noErrors = \<lparr>sheetNameError = None, locationError = None, createdByError = None,
                scheduledDateError = None\<rparr>"

definition initialCreateState :: "Date \<Rightarrow> CreateState" where
  "initialCreateState now =
     \<lparr>loading = False,
      formData = \<lparr>sheetName = '''', description = '''', formLocation = '''',
                  createdBy = ''JOJO'', scheduledDate = isoDatePart now\<rparr>,
      errors = noErrors, selectedTemplate = ''blank'', showLocationModal = False,
      showCalendar = False, calendarDate = Some now, notices = []\<rparr>"

subsection \<open>Form fields and validation\<close>

definition setField :: "Field \<Rightarrow> string \<Rightarrow> FormData \<Rightarrow> FormData" where
  "setField field v fd =
     (case field of
        SheetNameField \<Rightarrow> fd\<lparr>sheetName := v\<rparr>
      | DescriptionField \<Rightarrow> fd\<lparr>description := v\<rparr>
      | LocationField \<Rightarrow> fd\<lparr>formLocation := v\<rparr>
      | CreatedByField \<Rightarrow> fd\<lparr>createdBy := v\<rparr>
      | ScheduledDateField \<Rightarrow> fd\<lparr>scheduledDate := v\<rparr>)"

definition getError :: "Field \<Rightarrow> FormErrors \<Rightarrow> string option" where
  "getError field e =
     (case field of
        SheetNameField \<Rightarrow> sheetNameError e
      | DescriptionField \<Rightarrow> None
      | LocationField \<Rightarrow> locationError e
      | CreatedByField \<Rightarrow> createdByError e
      | ScheduledDateField \<Rightarrow> scheduledDateError e)"

definition clearError :: "Field \<Rightarrow> FormErrors \<Rightarrow> FormErrors" where
  "clearError field e =
     (case field of
        SheetNameField \<Rightarrow> e\<lparr>sheetNameError := None\<rparr>
      | DescriptionField \<Rightarrow> e
      | LocationField \<Rightarrow> e\<lparr>locationError := None\<rparr>
      | CreatedByField \<Rightarrow> e\<lparr>createdByError := None\<rparr>
      | ScheduledDateField \<Rightarrow> e\<lparr>scheduledDateError := None\<rparr>)"

text \<open>
  \<^verbatim>\<open>updateFormData\<close>: the field is set, and its error is cleared when there is one
  (a message that is not the empty string).
\<close>

definition updateFormData :: "Field \<Rightarrow> string \<Rightarrow> CreateState \<Rightarrow> CreateState" where
  "updateFormData field v s =
     (let s1 = s\<lparr>formData := setField field v (formData s)\<rparr>
      in case getError field (errors s) of
           None \<Rightarrow> s1
         | Some msg \<Rightarrow> if msg \<noteq> [] then s1\<lparr>errors := clearError field (errors s)\<rparr> else s1)"

text \<open>\<^verbatim>\<open>Object.keys(newErrors).length\<close>.\<close>

definition errorCount :: "FormErrors \<Rightarrow> nat" where
  "errorCount e =
     length (filter (\<lambda>x. x \<noteq> None)
       [sheetNameError e, locationError e, createdByError e, scheduledDateError e])"

text \<open>
  \<^verbatim>\<open>validateForm\<close>: the errors it passes to \<^verbatim>\<open>setErrors\<close>, and its result.
\<close>

definition validateForm :: "(string \<Rightarrow> Date option) \<Rightarrow> TimeZone \<Rightarrow> Date \<Rightarrow> FormData
    \<Rightarrow> FormErrors \<times> bool" where
  "validateForm implParse tz now fd =
     (let e1 = (if trim (sheetName fd) = [] then Some ''Sheet name is required''
                else if length (trim (sheetName fd)) < 3
                then Some ''Sheet name must be at least 3 characters'' else None);
          e2 = (if trim (formLocation fd) = [] then Some ''Location is required'' else None);
          e3 = (if trim (createdBy fd) = [] then Some ''Created by field is required'' else None);
          e4 = (if scheduledDate fd = [] then Some ''Scheduled date is required''
                else (let selectedDate = newDateOfString implParse (scheduledDate fd);
                          today = setHoursZero tz now
                      in if dateLess selectedDate today
                         then Some ''Scheduled date cannot be in the past'' else None));
          newErrors = \<lparr>sheetNameError = e1, locationError = e2, createdByError = e3,
                       scheduledDateError = e4\<rparr>
      in (newErrors, errorCount newErrors = 0))"

text \<open>
  \<^verbatim>\<open>handleCreateSheet\<close> up to its first \<^verbatim>\<open>await\<close>: a form that does not validate
  is reported and nothing is created; otherwise the creation starts.
\<close>

definition handleCreateSheet :: "(string \<Rightarrow> Date option) \<Rightarrow> TimeZone \<Rightarrow> Date
    \<Rightarrow> CreateState \<Rightarrow> CreateState" where
  "handleCreateSheet implParse tz now s =
     (let (newErrors, ok) = validateForm implParse tz now (formData s);
          s1 = s\<lparr>errors := newErrors\<rparr>
      in if \<not> ok
         then s1\<lparr>notices := notices s1
                  @ [(''Validation Error'', ''Please fix the errors before creating the sheet.'')]\<rparr>
         else s1\<lparr>loading := True\<rparr>)"

subsection \<open>The calendar\<close>

text \<open>
  The loop of \<^verbatim>\<open>generateCalendarDays\<close>. \<open>cellDate\<close> is \<^verbatim>\<open>currentDate\<close> for the
  index \<open>i\<close>: a copy of \<^verbatim>\<open>startDate\<close>, set to its day of the month plus \<open>i\<close>.
  \<open>calendarCell\<close> is the cell pushed for a valid \<^verbatim>\<open>currentDate\<close>; for an
  invalid one \<^verbatim>\<open>toISOString\<close> throws. \<^verbatim>\<open>today\<close> may be invalid: then
  \<^verbatim>\<open>===\<close> and \<^verbatim>\<open><\<close> against its time value are false.
\<close>

definition cellDate :: "TimeZone \<Rightarrow> Date \<Rightarrow> nat \<Rightarrow> Date option" where
  "cellDate tz startDate i = setDate tz startDate (getDate tz startDate + int i)"

definition calendarCell :: "TimeZone \<Rightarrow> Date option \<Rightarrow> int \<Rightarrow> string \<Rightarrow> Date \<Rightarrow> CalendarDay" where
  "calendarCell tz today month selected currentDate =
     \<lparr>date = currentDate, day = getDate tz currentDate,
      isCurrentMonth = (getMonth tz currentDate = month),
      isToday = (today = Some currentDate),
      isPast = dateLess (Some currentDate) today,
      isSelected = (isoDatePart currentDate = selected),
      dateString = isoDatePart currentDate\<rparr>"

function calendarLoop :: "(nat \<Rightarrow> Date option) \<Rightarrow> (Date \<Rightarrow> CalendarDay) \<Rightarrow> nat
    \<Rightarrow> CalendarDay list \<Rightarrow> js_error + CalendarDay list" where
  "calendarLoop current cell i days =
     (if i < 42
      then (case current i of
              None \<Rightarrow> Inl RangeError
            | Some currentDate \<Rightarrow> calendarLoop current cell (i + 1) (days @ [cell currentDate]))
      else Inr days)"
  by pat_completeness auto
termination
  by (relation "measure (\<lambda>(current, cell, i, days). 42 - i)") auto

declare calendarLoop.simps [simp del]

text \<open>
  \<^verbatim>\<open>generateCalendarDays\<close>. When \<^verbatim>\<open>calendarDate\<close>, \<^verbatim>\<open>firstDay\<close> or
  \<^verbatim>\<open>startDate\<close> is invalid, its fields are \<^verbatim>\<open>NaN\<close>, every date made from it
  is invalid, and the first round of the loop throws.
\<close>

definition generateCalendarDays :: "TimeZone \<Rightarrow> Date \<Rightarrow> Date option \<Rightarrow> string
    \<Rightarrow> js_error + CalendarDay list" where
  "generateCalendarDays tz now calDate selected =
     (case calDate of
        None \<Rightarrow> Inl RangeError
      | Some calendarDate' \<Rightarrow>
          (let year = getFullYear tz calendarDate';
               month = getMonth tz calendarDate';
               lastDay = newDate tz year (month + 1) 0;
               today = setHoursZero tz now
           in case newDate tz year month 1 of
                None \<Rightarrow> Inl RangeError
              | Some firstDay \<Rightarrow>
                  (case setDate tz firstDay (getDate tz firstDay - getDay tz firstDay) of
                     None \<Rightarrow> Inl RangeError
                   | Some startDate \<Rightarrow>
                       calendarLoop (cellDate tz startDate)
                         (calendarCell tz today month selected) 0 [])))"

definition handleDateSelect :: "string \<Rightarrow> CreateState \<Rightarrow> CreateState" where
  "handleDateSelect ds s = (updateFormData ScheduledDateField ds s)\<lparr>showCalendar := False\<rparr>"

text \<open>
  A press on a cell of the calendar: the cell is \<^verbatim>\<open>disabled\<close> when it is past, and
  its handler is \<^verbatim>\<open>!dayInfo.isPast && handleDateSelect(dayInfo.dateString)\<close>.
\<close>

definition pressCalendarDay :: "CalendarDay \<Rightarrow> CreateState \<Rightarrow> CreateState" where
  "pressCalendarDay dayInfo s =
     (if isPast dayInfo then s
      else if \<not> isPast dayInfo then handleDateSelect (dateString dayInfo) s else s)"

text \<open>The month navigation; the fields of an invalid date are \<^verbatim>\<open>NaN\<close>.\<close>

definition goToPreviousMonth :: "TimeZone \<Rightarrow> CreateState \<Rightarrow> CreateState" where
  "goToPreviousMonth tz s =
     s\<lparr>calendarDate :=
         (case calendarDate s of
            None \<Rightarrow> None
          | Some prev \<Rightarrow> newDate tz (getFullYear tz prev) (getMonth tz prev - 1) 1)\<rparr>"

definition goToNextMonth :: "TimeZone \<Rightarrow> CreateState \<Rightarrow> CreateState" where
  "goToNextMonth tz s =
     s\<lparr>calendarDate :=
         (case calendarDate s of
            None \<Rightarrow> None
          | Some prev \<Rightarrow> newDate tz (getFullYear tz prev) (getMonth tz prev + 1) 1)\<rparr>"

section \<open>States and predicates of the statements\<close>

text \<open>
  Items in locations named \<^verbatim>\<open>2\<close>, \<^verbatim>\<open>1\<close> and \<^verbatim>\<open>constructor\<close>: names that
  are not among the locations of the form.
\<close>

definition numberedItems :: "StockItem list" where
  "numberedItems =
     [\<lparr>id' = ''1'', sheetId = ''ST-1'', category = ''A'', itemName = ''first'',
       itemDescription = '''', location = ''2'', systemQuantity = Num 1,
       countedQuantity = None, unit = ''PCS'', variance = Num 0\<rparr>,
      \<lparr>id' = ''2'', sheetId = ''ST-1'', category = ''A'', itemName = ''second'',
       itemDescription = '''', location = ''1'', systemQuantity = Num 1,
       countedQuantity = None, unit = ''PCS'', variance = Num 0\<rparr>,
      \<lparr>id' = ''3'', sheetId = ''ST-1'', category = ''A'', itemName = ''third'',
       itemDescription = '''', location = ''constructor'', systemQuantity = Num 1,
       countedQuantity = None, unit = ''PCS'', variance = Num 0\<rparr>]"

text \<open>
  The grouping as a function that cannot fail: each item is pushed onto the array of its
  location, which is created last when the location is new.
\<close>

fun grouping :: "StockItem list \<Rightarrow> (string \<times> ref list) list \<Rightarrow> ref list \<Rightarrow> (string \<times> ref list) list" where
  "grouping h acc [] = acc"
| "grouping h acc (r # rs) =
     grouping h (setProperty (location (h ! r))
              ((case map_of acc (location (h ! r)) of None \<Rightarrow> [] | Some arr \<Rightarrow> arr) @ [r]) acc) rs"

text \<open>
  The invariant of an item, as the specification writes it: once its
  \<open>countedQuantity\<close> is set, \<^verbatim>\<open>variance == countedQuantity - systemQuantity\<close>, with
  JavaScript's subtraction and equality.
\<close>

definition varianceInvariant :: "StockItem \<Rightarrow> bool" where
  "varianceInvariant item =
     (case countedQuantity item of
        None \<Rightarrow> True
      | Some c \<Rightarrow> strictEquals (variance item) (js_sub c (systemQuantity item)))"

text \<open>
  What the code keeps of it: the \<open>variance\<close> of a counted item is the number that
  the subtraction gives, \<^verbatim>\<open>NaN\<close> for a counted quantity that is \<^verbatim>\<open>NaN\<close>.
\<close>

definition varianceRecomputed :: "StockItem \<Rightarrow> bool" where
  "varianceRecomputed item =
     (case countedQuantity item of
        None \<Rightarrow> True
      | Some c \<Rightarrow> variance item = js_sub c (systemQuantity item))"

fun isInteger :: "jsnum \<Rightarrow> bool" where
  "isInteger (Num n) = True"
| "isInteger _ = False"

text \<open>
  The states of the screen: the seeded state, and every state that an operation of the
  screen leaves, whatever the implementation parameters of \<^verbatim>\<open>parseInt\<close> and
  \<^verbatim>\<open>toString\<close> are. The modal is opened on an item of the list.
\<close>

inductive reachable :: "ViewState \<Rightarrow> bool" where
  initial: "reachable initialState"
| tab: "reachable s \<Longrightarrow> reachable (setActiveTab t s)"
| toggleSheet: "reachable s \<Longrightarrow> reachable (toggleSheetExpansion sid s)"
| toggleLocation: "reachable s \<Longrightarrow> reachable (toggleLocationExpansion loc s)"
| openModal: "reachable s \<Longrightarrow> r \<in> set (items s) \<Longrightarrow> reachable (openCountModal expo r s)"
| typing: "reachable s \<Longrightarrow> reachable (setCountInput v s)"
| save: "reachable s \<Longrightarrow> reachable (saveCount approx s)"
| cancel: "reachable s \<Longrightarrow> reachable (cancelModal s)"

text \<open>
  What every state of the screen satisfies: the references of the list are objects of
  the store, the \<^verbatim>\<open>id\<close>s of the items are pairwise distinct, every
  \<open>systemQuantity\<close> is an integer, every \<open>variance\<close> is the recomputed one, and a
  selected item is an item of the list.
\<close>

definition viewInvariant :: "ViewState \<Rightarrow> bool" where
  "viewInvariant s =
     (list_all (\<lambda>r. r < length (heap s)) (items s)
      \<and> distinct (map (\<lambda>r. id' (heap s ! r)) (items s))
      \<and> list_all (\<lambda>r. isInteger (systemQuantity (heap s ! r))) (items s)
      \<and> list_all (\<lambda>r. varianceRecomputed (heap s ! r)) (items s)
      \<and> (case selectedItem s of None \<Rightarrow> True | Some sel \<Rightarrow> sel \<in> set (items s)))"

text \<open>Time zones of the statements.\<close>

definition hour :: int where
  "hour = 3600000"

text \<open>
  Beirut in 2025: two hours east of UTC, three from the start of daylight saving
  at midnight of 30 March (22:00 UTC of 29 March), when the clocks go to 01:00.
\<close>

definition zoneBeirut2025 :: TimeZone where
  "zoneBeirut2025 = stepZone (2 * hour) (3 * hour) (MakeDate (MakeDay 2025 2 29) (22 * hour))"

text \<open>
  Apia in 2011: ten hours west of UTC, fourteen hours east from the end of 29 December
  (10:00 UTC of 30 December); the island has no 30 December 2011.
\<close>

definition zoneApia2011 :: TimeZone where
  "zoneApia2011 = stepZone (- 10 * hour) (14 * hour) (MakeDate (MakeDay 2011 11 30) (10 * hour))"

text \<open>The calendar day of a date in local time, and the time value of a UTC date and hour.\<close>

definition localDay :: "TimeZone \<Rightarrow> Date \<Rightarrow> int" where
  "localDay tz d = Day (LocalTime tz d)"

definition utcTime :: "int \<Rightarrow> int \<Rightarrow> int \<Rightarrow> int \<Rightarrow> Date" where
  "utcTime year month date' h = MakeDate (MakeDay year month date') (h * hour)"

text \<open>
  The \<^verbatim>\<open>startDate\<close> of \<^verbatim>\<open>generateCalendarDays\<close>: the first day of the month of
  \<^verbatim>\<open>calendarDate\<close>, set back by its day of the week.
\<close>

definition gridStart :: "TimeZone \<Rightarrow> Date \<Rightarrow> Date option" where
  "gridStart tz calDate =
     (case newDate tz (getFullYear tz calDate) (getMonth tz calDate) 1 of
        None \<Rightarrow> None
      | Some firstDay \<Rightarrow> setDate tz firstDay (getDate tz firstDay - getDay tz firstDay))"

text \<open>
  The day number of the first day of the reference month, the month of
  \<^verbatim>\<open>calendarDate\<close> in local time, and the day number of the Sunday on or before it.
\<close>

definition referenceFirstDay :: "TimeZone \<Rightarrow> Date \<Rightarrow> int" where
  "referenceFirstDay tz calDate = MakeDay (getFullYear tz calDate) (getMonth tz calDate) 1"

definition referenceSunday :: "TimeZone \<Rightarrow> Date \<Rightarrow> int" where
  "referenceSunday tz calDate =
     referenceFirstDay tz calDate - WeekDay (MakeDate (referenceFirstDay tz calDate) 0)"

section \<open>Saving a count\<close>

text \<open>
  What \<open>replaceCount\<close> returns, when every reference of the array is an object of
  the store: an array of the same length over a store that extends the old one; at an
  index whose item has the selected \<^verbatim>\<open>id\<close>, a new object that is the old item with
  the two fields replaced; at every other index, the old reference.
\<close>

lemma replaceCount_spec:
  assumes "\<forall>r \<in> set rs. r < length h"
  shows "length (snd (replaceCount sid nc nv h rs)) = length rs
    \<and> length h \<le> length (fst (replaceCount sid nc nv h rs))
    \<and> take (length h) (fst (replaceCount sid nc nv h rs)) = h
    \<and> (\<forall>r \<in> set (snd (replaceCount sid nc nv h rs)). r < length (fst (replaceCount sid nc nv h rs)))
    \<and> (\<forall>i < length rs.
          if id' (h ! (rs ! i)) = sid
          then length h \<le> snd (replaceCount sid nc nv h rs) ! i
             \<and> fst (replaceCount sid nc nv h rs) ! (snd (replaceCount sid nc nv h rs) ! i)
                 = (h ! (rs ! i))\<lparr>countedQuantity := Some nc, variance := nv\<rparr>
          else snd (replaceCount sid nc nv h rs) ! i = rs ! i)"
  using assms
proof (induction rs arbitrary: h)
  case Nil
  then show ?case by simp
next
  case (Cons r rs)
  have rv: "r < length h" and rsv: "\<forall>x \<in> set rs. x < length h" using Cons.prems by simp_all
  show ?case
  proof (cases "id' (h ! r) = sid")
    case False
    obtain h' rs' where R: "replaceCount sid nc nv h rs = (h', rs')"
      by (cases "replaceCount sid nc nv h rs")
    have step: "replaceCount sid nc nv h (r # rs) = (h', r # rs')" using False R by simp
    note IH = Cons.IH [OF rsv, unfolded R fst_conv snd_conv]
    have "r < length h'" using rv IH by linarith
    moreover have "\<forall>i < length (r # rs).
          if id' (h ! ((r # rs) ! i)) = sid
          then length h \<le> (r # rs') ! i
             \<and> h' ! ((r # rs') ! i) = (h ! ((r # rs) ! i))\<lparr>countedQuantity := Some nc, variance := nv\<rparr>
          else (r # rs') ! i = (r # rs) ! i"
    proof (intro allI impI)
      fix i assume "i < length (r # rs)"
      then show "if id' (h ! ((r # rs) ! i)) = sid
          then length h \<le> (r # rs') ! i
             \<and> h' ! ((r # rs') ! i) = (h ! ((r # rs) ! i))\<lparr>countedQuantity := Some nc, variance := nv\<rparr>
          else (r # rs') ! i = (r # rs) ! i"
        using False IH by (cases i) auto
    qed
    ultimately show ?thesis unfolding step fst_conv snd_conv using IH by simp
  next
    case True
    let ?h1 = "h @ [(h ! r)\<lparr>countedQuantity := Some nc, variance := nv\<rparr>]"
    obtain h' rs' where R: "replaceCount sid nc nv ?h1 rs = (h', rs')"
      by (cases "replaceCount sid nc nv ?h1 rs")
    have step: "replaceCount sid nc nv h (r # rs) = (h', length h # rs')" using True R by simp
    have rsv1: "\<forall>x \<in> set rs. x < length ?h1" using rsv by auto
    note IH = Cons.IH [OF rsv1, unfolded R fst_conv snd_conv]
    have len: "length h < length h'" using IH by simp
    have pre: "take (length ?h1) h' = ?h1" using IH by simp
    have pre0: "take (length h) h' = h"
    proof -
      have "take (length h) (take (length ?h1) h') = take (length h) ?h1" using pre by simp
      then show ?thesis by (simp add: min_def)
    qed
    have new: "h' ! length h = (h ! r)\<lparr>countedQuantity := Some nc, variance := nv\<rparr>"
    proof -
      have "h' ! length h = take (length ?h1) h' ! length h" by simp
      also have "\<dots> = ?h1 ! length h" using pre by simp
      finally show ?thesis by simp
    qed
    have old: "?h1 ! x = h ! x" if "x < length h" for x using that by (simp add: nth_append)
    have "\<forall>i < length (r # rs).
          if id' (h ! ((r # rs) ! i)) = sid
          then length h \<le> (length h # rs') ! i
             \<and> h' ! ((length h # rs') ! i) = (h ! ((r # rs) ! i))\<lparr>countedQuantity := Some nc, variance := nv\<rparr>
          else (length h # rs') ! i = (r # rs) ! i"
    proof (intro allI impI)
      fix i assume i: "i < length (r # rs)"
      show "if id' (h ! ((r # rs) ! i)) = sid
          then length h \<le> (length h # rs') ! i
             \<and> h' ! ((length h # rs') ! i) = (h ! ((r # rs) ! i))\<lparr>countedQuantity := Some nc, variance := nv\<rparr>
          else (length h # rs') ! i = (r # rs) ! i"
      proof (cases i)
        case 0
        then show ?thesis using True new by simp
      next
        case (Suc j)
        then have j: "j < length rs" using i by simp
        then have "rs ! j < length h" using rsv by simp
        then have "?h1 ! (rs ! j) = h ! (rs ! j)" by (rule old)
        then show ?thesis using IH j Suc by (auto split: if_splits)
      qed
    qed
    then show ?thesis unfolding step fst_conv snd_conv using IH len pre0 by simp
  qed
qed

text \<open>The guard of \<open>saveCount\<close>: with no selected item or an empty input nothing changes.\<close>

lemma saveCount_noop:
  "selectedItem s = None \<or> countInput s = [] \<Longrightarrow> saveCount approx s = s"
  by (auto simp: saveCount_def split: option.splits)

text \<open>Past the guard, whatever \<open>parseInt\<close> returns is committed.\<close>

lemma saveCount_commit:
  fixes approx :: "string \<Rightarrow> int"
  assumes sel: "selectedItem s = Some sel" and inp: "countInput s \<noteq> []"
    and wf: "\<forall>r \<in> set (items s). r < length (heap s)"
  defines "nc \<equiv> parseInt approx (countInput s)"
  defines "nv \<equiv> js_sub (parseInt approx (countInput s)) (systemQuantity (heap s ! sel))"
  shows "modalVisible (saveCount approx s) = False \<and> selectedItem (saveCount approx s) = None
    \<and> countInput (saveCount approx s) = []
    \<and> alerts (saveCount approx s) = alerts s @ [(''Success'', ''Count updated successfully'')]
    \<and> activeTab (saveCount approx s) = activeTab s \<and> sheets (saveCount approx s) = sheets s
    \<and> expandedLocations (saveCount approx s) = expandedLocations s
    \<and> length (items (saveCount approx s)) = length (items s)
    \<and> length (heap s) \<le> length (heap (saveCount approx s))
    \<and> take (length (heap s)) (heap (saveCount approx s)) = heap s
    \<and> (\<forall>r \<in> set (items (saveCount approx s)). r < length (heap (saveCount approx s)))
    \<and> (\<forall>i < length (items s).
          if id' (heap s ! (items s ! i)) = id' (heap s ! sel)
          then length (heap s) \<le> items (saveCount approx s) ! i
             \<and> heap (saveCount approx s) ! (items (saveCount approx s) ! i)
                 = (heap s ! (items s ! i))\<lparr>countedQuantity := Some nc, variance := nv\<rparr>
          else items (saveCount approx s) ! i = items s ! i)"
proof -
  obtain h' rs' where R: "replaceCount (id' (heap s ! sel)) nc nv (heap s) (items s) = (h', rs')"
    by (cases "replaceCount (id' (heap s ! sel)) nc nv (heap s) (items s)")
  have S: "saveCount approx s = s\<lparr>heap := h', items := rs', modalVisible := False, selectedItem := None,
                  countInput := '''',
                  alerts := alerts s @ [(''Success'', ''Count updated successfully'')]\<rparr>"
    using sel inp R unfolding saveCount_def nc_def nv_def by (simp add: Let_def)
  note spec = replaceCount_spec [OF wf, of "id' (heap s ! sel)" nc nv, unfolded R fst_conv snd_conv]
  show ?thesis unfolding S using spec by simp
qed


section \<open>Doubles\<close>

text \<open>An integer up to \<open>2 ^ 53\<close> in magnitude is a double, and so is the exact difference there.\<close>

lemma toNumber_exact: "\<bar>n\<bar> \<le> 2 ^ 53 \<Longrightarrow> toNumber n = Num n"
  by (simp add: toNumber_def)

lemma toNumber_not_NaN: "toNumber n \<noteq> NaN"
  by (simp add: toNumber_def Let_def)

lemma js_sub_exact: "\<bar>a - b\<bar> \<le> 2 ^ 53 \<Longrightarrow> js_sub (Num a) (Num b) = Num (a - b)"
  by (simp add: toNumber_exact)

lemma strictEquals_refl: "x \<noteq> NaN \<Longrightarrow> strictEquals x x"
  by (cases x) simp_all

lemma js_sub_integer_not_NaN: "c \<noteq> NaN \<Longrightarrow> js_sub c (Num q) \<noteq> NaN"
  by (cases c) (simp_all add: toNumber_not_NaN)

section \<open>The invariant of the screen\<close>

lemma viewInvariant_initial: "viewInvariant initialState"
  by code_simp

lemma viewInvariant_saveCount:
  assumes inv: "viewInvariant s"
  shows "viewInvariant (saveCount approx s)"
proof (cases "selectedItem s = None \<or> countInput s = []")
  case True
  then show ?thesis using inv by (simp add: saveCount_noop)
next
  case False
  then obtain sel where sel: "selectedItem s = Some sel" and ne: "countInput s \<noteq> []" by auto
  have wf: "\<forall>r \<in> set (items s). r < length (heap s)"
    and dist: "distinct (map (\<lambda>r. id' (heap s ! r)) (items s))"
    and sqi: "\<forall>r \<in> set (items s). isInteger (systemQuantity (heap s ! r))"
    and vinv: "\<forall>r \<in> set (items s). varianceRecomputed (heap s ! r)"
    and mem: "sel \<in> set (items s)"
    using inv sel by (simp_all add: viewInvariant_def list_all_iff)
  let ?t = "saveCount approx s"
  let ?nc = "parseInt approx (countInput s)"
  let ?nv = "js_sub ?nc (systemQuantity (heap s ! sel))"
  note C = saveCount_commit [OF sel ne wf, of approx]
  have len: "length (items ?t) = length (items s)" using C by simp
  have wf': "\<forall>r \<in> set (items ?t). r < length (heap ?t)" using C by simp
  have pre: "take (length (heap s)) (heap ?t) = heap s" using C by simp
  have old: "heap ?t ! r = heap s ! r" if "r < length (heap s)" for r
  proof -
    have "heap ?t ! r = take (length (heap s)) (heap ?t) ! r" using that by simp
    then show ?thesis using pre by simp
  qed
  have each: "if id' (heap s ! (items s ! i)) = id' (heap s ! sel)
          then heap ?t ! (items ?t ! i)
                 = (heap s ! (items s ! i))\<lparr>countedQuantity := Some ?nc, variance := ?nv\<rparr>
          else items ?t ! i = items s ! i" if "i < length (items s)" for i
    using C that by (auto split: if_splits)
  have same: "(id' (heap s ! (items s ! i)) = id' (heap s ! sel)) = (items s ! i = sel)"
    if i: "i < length (items s)" for i
  proof -
    obtain j where j: "j < length (items s)" "items s ! j = sel"
      using mem by (auto simp: in_set_conv_nth)
    let ?ids = "map (\<lambda>r. id' (heap s ! r)) (items s)"
    have "(?ids ! i = ?ids ! j) = (i = j)"
      by (rule nth_eq_iff_index_eq [OF dist]) (use i j in simp_all)
    then show ?thesis using i j by auto
  qed
  have ids: "id' (heap ?t ! (items ?t ! i)) = id' (heap s ! (items s ! i))"
    if i: "i < length (items s)" for i
  proof (cases "id' (heap s ! (items s ! i)) = id' (heap s ! sel)")
    case True
    then show ?thesis using each [OF i] by simp
  next
    case False
    then have "items ?t ! i = items s ! i" using each [OF i] by simp
    moreover have "items s ! i < length (heap s)" using wf i by simp
    ultimately show ?thesis using old by simp
  qed
  have "map (\<lambda>r. id' (heap ?t ! r)) (items ?t) = map (\<lambda>r. id' (heap s ! r)) (items s)"
    by (rule nth_equalityI) (use len ids in simp_all)
  then have dist': "distinct (map (\<lambda>r. id' (heap ?t ! r)) (items ?t))" using dist by simp
  have both: "isInteger (systemQuantity (heap ?t ! r)) \<and> varianceRecomputed (heap ?t ! r)"
    if rin: "r \<in> set (items ?t)" for r
  proof -
    obtain i where i: "i < length (items s)" and r: "r = items ?t ! i"
      using rin len by (auto simp: in_set_conv_nth)
    show ?thesis
    proof (cases "items s ! i = sel")
      case True
      then have "heap ?t ! r = (heap s ! sel)\<lparr>countedQuantity := Some ?nc, variance := ?nv\<rparr>"
        using each [OF i] r by simp
      then show ?thesis using sqi mem by (simp add: varianceRecomputed_def)
    next
      case False
      then have "items ?t ! i = items s ! i" using each [OF i] same [OF i] by simp
      moreover have "items s ! i < length (heap s)" "items s ! i \<in> set (items s)"
        using wf i by simp_all
      ultimately show ?thesis using old vinv sqi r by simp
    qed
  qed
  have "selectedItem ?t = None" using C by simp
  then show ?thesis using wf' dist' both by (simp add: viewInvariant_def list_all_iff)
qed

lemma reachable_viewInvariant: "reachable s \<Longrightarrow> viewInvariant s"
proof (induction rule: reachable.induct)
  case initial
  show ?case by (rule viewInvariant_initial)
next
  case (save s approx)
  then show ?case by (simp add: viewInvariant_saveCount)
next
  case (openModal s r expo)
  then show ?case by (simp add: viewInvariant_def openCountModal_def Let_def)
qed (auto simp: viewInvariant_def setActiveTab_def toggleSheetExpansion_def
      toggleLocationExpansion_def setCountInput_def cancelModal_def split: option.splits)

text \<open>
  In every state of the screen, a counted item whose count is not \<^verbatim>\<open>NaN\<close> satisfies
  \<^verbatim>\<open>variance == countedQuantity - systemQuantity\<close>; for every counted item the
  variance is the number that the subtraction gives.
\<close>

lemma variance_recomputed_reachable:
  assumes "reachable s" and "r \<in> set (items s)" and "countedQuantity (heap s ! r) = Some c"
  shows "variance (heap s ! r) = js_sub c (systemQuantity (heap s ! r))"
  using reachable_viewInvariant [OF assms(1)] assms(2,3)
  by (auto simp: viewInvariant_def list_all_iff varianceRecomputed_def)

lemma variance_invariant_of_numeric_counts:
  assumes "reachable s" and "r \<in> set (items s)" and "countedQuantity (heap s ! r) = Some c"
    and "c \<noteq> NaN"
  shows "varianceInvariant (heap s ! r)"
proof -
  have "isInteger (systemQuantity (heap s ! r))"
    using reachable_viewInvariant [OF assms(1)] assms(2)
    by (auto simp: viewInvariant_def list_all_iff)
  then obtain q where q: "systemQuantity (heap s ! r) = Num q"
    by (cases "systemQuantity (heap s ! r)") simp_all
  have v: "variance (heap s ! r) = js_sub c (Num q)"
    using variance_recomputed_reachable [OF assms(1,2,3)] q by simp
  show ?thesis
    unfolding varianceInvariant_def assms(3) q v
    using js_sub_integer_not_NaN [OF assms(4)] by (simp add: strictEquals_refl)
qed

section \<open>Saving a count\<close>





text \<open>
  C2 at the input \<^verbatim>\<open>abc\<close>. The second seeded item, uncounted, is opened in the modal
  and the input is replaced by \<^verbatim>\<open>abc\<close>, which \<open>parseInt\<close> reads as \<^verbatim>\<open>NaN\<close>.
  \<open>saveCount\<close> does not stop there: it closes the modal and replaces the item by a
  copy whose \<open>countedQuantity\<close> and \<open>variance\<close> are \<^verbatim>\<open>NaN\<close>.
\<close>

theorem saveCount_non_numeric_commits_NaN:
  "\<forall>approx expo.
     countInput (setCountInput ''abc'' (openCountModal expo 1 initialState)) = ''abc''
   \<and> parseInt approx ''abc'' = NaN
   \<and> modalVisible (setCountInput ''abc'' (openCountModal expo 1 initialState)) = True
   \<and> modalVisible (saveCount approx (setCountInput ''abc'' (openCountModal expo 1 initialState)))
       = False
   \<and> items (saveCount approx (setCountInput ''abc'' (openCountModal expo 1 initialState)))
       = [0, 5, 2, 3, 4]
   \<and> countedQuantity
       (heap (saveCount approx (setCountInput ''abc'' (openCountModal expo 1 initialState))) ! 5)
       = Some NaN
   \<and> variance
       (heap (saveCount approx (setCountInput ''abc'' (openCountModal expo 1 initialState))) ! 5)
       = NaN
   \<and> countedQuantity (heap initialState ! 1) = None
   \<and> variance (heap initialState ! 1) = Num 0"
  by (intro allI conjI) code_simp+

section \<open>Reading a count that starts with decimal digits\<close>

lemma digit_char:
  assumes "digitValue c < 10"
  shows "48 \<le> (of_char c :: int) \<and> (of_char c :: int) \<le> 57"
  using assms unfolding digitValue_def Let_def by (auto split: if_splits)

lemma digit_not_special:
  assumes "digitValue c < 10"
  shows "\<not> isWhiteSpace c" "c \<noteq> CHR ''-''" "c \<noteq> CHR ''+''" "c \<noteq> CHR ''x''" "c \<noteq> CHR ''X''"
  using digit_char [OF assms] unfolding isWhiteSpace_def by auto

lemma digitValue_nonneg: "0 \<le> digitValue c"
  unfolding digitValue_def Let_def by simp

lemma digitValue_zero: "digitValue (CHR ''0'') = 0"
  by code_simp

lemma digit_positive:
  assumes "digitValue c < 10" and "c \<noteq> CHR ''0''"
  shows "1 \<le> digitValue c"
proof -
  have r: "48 \<le> (of_char c :: int)" using digit_char [OF assms(1)] by simp
  have "(of_char c :: int) \<noteq> 48"
  proof
    assume "(of_char c :: int) = 48"
    then have "(of_char c :: int) = of_char (CHR ''0'')" by simp
    then have "c = CHR ''0''" by (simp only: of_char_eq_iff)
    then show False using assms(2) by simp
  qed
  then show ?thesis using r digit_char [OF assms(1)] unfolding digitValue_def Let_def by simp
qed

lemma digitsValue_snoc: "digitsValue R (Z @ [c]) = digitsValue R Z * R + digitValue c"
  by (simp add: digitsValue_def)

lemma digitsValue_nonneg: "0 \<le> digitsValue 10 Z"
  by (induction Z rule: rev_induct) (simp_all add: digitsValue_def digitValue_nonneg)

text \<open>A run of \<open>k\<close> digits that does not start with 0 is at least \<open>10 ^ (k - 1)\<close>.\<close>

lemma digitsValue_lower:
  assumes "Z \<noteq> []" and "list_all (\<lambda>d. digitValue d < 10) Z" and "hd Z \<noteq> CHR ''0''"
  shows "10 ^ (length Z - 1) \<le> digitsValue 10 Z"
  using assms
proof (induction Z rule: rev_induct)
  case Nil
  then show ?case by simp
next
  case (snoc c ys)
  show ?case
  proof (cases ys)
    case Nil
    then have "1 \<le> digitValue c" using snoc.prems digit_positive by simp
    then show ?thesis using Nil by (simp add: digitsValue_def)
  next
    case (Cons y ys')
    have IH: "10 ^ (length ys - 1) \<le> digitsValue 10 ys" using snoc Cons by simp
    have len: "length (ys @ [c]) - 1 = Suc (length ys - 1)" using Cons by simp
    have "10 ^ (length (ys @ [c]) - 1) = (10 :: int) ^ (length ys - 1) * 10"
      unfolding len by simp
    also have "\<dots> \<le> digitsValue 10 ys * 10" using IH by simp
    also have "\<dots> \<le> digitsValue 10 (ys @ [c])"
      unfolding digitsValue_snoc using digitValue_nonneg [of c] by simp
    finally show ?thesis .
  qed
qed

lemma digitsValue_significant: "digitsValue 10 (significantDigits Z) = digitsValue 10 Z"
proof (induction Z)
  case Nil
  then show ?case by (simp add: significantDigits_def)
next
  case (Cons c Z)
  show ?case
  proof (cases "c = CHR ''0''")
    case True
    have "digitsValue 10 (c # Z) = digitsValue 10 Z"
      using True digitValue_zero by (simp add: digitsValue_def)
    then show ?thesis using True Cons by (simp add: significantDigits_def)
  next
    case False
    then show ?thesis by (simp add: significantDigits_def)
  qed
qed

text \<open>A run of digits of value at most \<open>2 ^ 53\<close> has at most 20 significant digits.\<close>

lemma few_significant_digits:
  assumes dig: "list_all (\<lambda>d. digitValue d < 10) Z" and bound: "digitsValue 10 Z \<le> 2 ^ 53"
  shows "\<not> 20 < length (significantDigits Z)"
proof
  assume long: "20 < length (significantDigits Z)"
  let ?z = "significantDigits Z"
  have ne: "?z \<noteq> []" using long by auto
  have hd: "hd ?z \<noteq> CHR ''0''"
    using ne hd_dropWhile [of "\<lambda>c. c = CHR ''0''" Z] by (simp add: significantDigits_def)
  have all: "list_all (\<lambda>d. digitValue d < 10) ?z"
    using dig set_dropWhileD [of _ "\<lambda>c. c = CHR ''0''" Z]
    by (auto simp: significantDigits_def list_all_iff)
  have "(10 :: int) ^ 20 \<le> 10 ^ (length ?z - 1)"
    by (rule power_increasing) (use long in simp_all)
  also have "\<dots> \<le> digitsValue 10 ?z" by (rule digitsValue_lower [OF ne all hd])
  also have "\<dots> = digitsValue 10 Z" by (rule digitsValue_significant)
  finally have "(10 :: int) ^ 20 \<le> 2 ^ 53" using bound by linarith
  then show False by simp
qed

text \<open>
  \<open>parseInt\<close> on white space, an optional sign, a run of decimal digits and a
  character that is no decimal digit: the signed integer of the run, when that is at
  most \<open>2 ^ 53\<close> in magnitude and the run is not \<^verbatim>\<open>0\<close> before \<^verbatim>\<open>x\<close> or
  \<^verbatim>\<open>X\<close>.
\<close>

lemma parseInt_decimal_prefix:
  assumes ws: "list_all isWhiteSpace ws"
    and sg: "sg = [] \<or> sg = ''+'' \<or> sg = ''-''"
    and ne: "ds \<noteq> []" and dig: "list_all (\<lambda>d. digitValue d < 10) ds"
    and stop: "\<not> digitValue c < 10"
    and nohex: "\<not> (ds = ''0'' \<and> (c = CHR ''x'' \<or> c = CHR ''X''))"
    and bound: "digitsValue 10 ds \<le> 2 ^ 53"
  shows "parseInt approx (ws @ sg @ ds @ c # rest)
         = Num ((if sg = ''-'' then - 1 else 1) * digitsValue 10 ds)"
proof -
  obtain d ds' where ds: "ds = d # ds'" using ne by (cases ds) auto
  have d: "digitValue d < 10" using dig ds by simp
  let ?T = "ds @ c # rest"
  have sgw: "\<not> isWhiteSpace (CHR ''+'')" "\<not> isWhiteSpace (CHR ''-'')" by code_simp+
  have first: "dropWhile isWhiteSpace (sg @ ?T) = sg @ ?T"
    using sg sgw digit_not_special(1) [OF d] ds by auto
  have S: "dropWhile isWhiteSpace (ws @ sg @ ?T) = sg @ ?T"
    using ws first by (simp add: dropWhile_append2 list_all_iff)
  have sign: "(if sg @ ?T \<noteq> [] \<and> hd (sg @ ?T) = CHR ''-'' then - 1 else (1 :: int))
              = (if sg = ''-'' then - 1 else 1)"
    using sg digit_not_special(2) [OF d] ds by auto
  have S1: "(if sg @ ?T \<noteq> [] \<and> (hd (sg @ ?T) = CHR ''+'' \<or> hd (sg @ ?T) = CHR ''-'')
             then tl (sg @ ?T) else sg @ ?T) = ?T"
    using sg digit_not_special(2,3) [OF d] ds by auto
  have nohex': "\<not> (take 2 ?T = ''0x'' \<or> take 2 ?T = ''0X'')"
  proof (cases ds')
    case Nil
    then show ?thesis using ds nohex by auto
  next
    case (Cons e es)
    then have "digitValue e < 10" using dig ds by simp
    then show ?thesis using digit_not_special(4,5) ds Cons by auto
  qed
  have Z: "takeWhile (\<lambda>c. digitValue c < 10) ?T = ds"
    using dig stop by (simp add: takeWhile_append2 list_all_iff takeWhile_eq_all_conv)
  have few: "\<not> 20 < length (significantDigits ds)"
    by (rule few_significant_digits [OF dig bound])
  have mag: "\<bar>(if sg = ''-'' then - 1 else 1) * digitsValue 10 ds\<bar> \<le> 2 ^ 53"
    using bound digitsValue_nonneg [of ds] by (simp add: abs_mult)
  show ?thesis
    unfolding parseInt_def S Let_def sign S1
    using nohex' Z ne few toNumber_exact [OF mag] by simp
qed

text \<open>
  C10, as amended. For a selected item and an input that consists of optional white
  space, an optional sign, a run of decimal digits that is not empty, then a character
  that is not a decimal digit, then anything, \<open>saveCount\<close> does not reject the
  input: \<open>parseInt\<close> reads the signed integer of the run, the selected item is
  replaced by a copy whose \<open>countedQuantity\<close> is that integer and whose
  \<open>variance\<close> is that integer minus the \<open>systemQuantity\<close>, and the modal is
  closed. Left out are the run \<^verbatim>\<open>0\<close> followed by \<^verbatim>\<open>x\<close> or \<^verbatim>\<open>X\<close>, and the
  integers beyond the doubles that are exact: the run is at most \<open>2 ^ 53\<close>, and so is
  the magnitude of the difference.
\<close>

theorem saveCount_numeric_prefix:
  assumes wf: "\<forall>r \<in> set (items s). r < length (heap s)"
    and sel: "selectedItem s = Some sel"
    and inp: "countInput s = ws @ sg @ ds @ c # rest"
    and ws: "list_all isWhiteSpace ws"
    and sg: "sg = [] \<or> sg = ''+'' \<or> sg = ''-''"
    and ne: "ds \<noteq> []" and dig: "list_all (\<lambda>d. digitValue d < 10) ds"
    and stop: "\<not> digitValue c < 10"
    and nohex: "\<not> (ds = ''0'' \<and> (c = CHR ''x'' \<or> c = CHR ''X''))"
    and sq: "systemQuantity (heap s ! sel) = Num q"
    and k: "k = (if sg = ''-'' then - 1 else 1) * digitsValue 10 ds"
    and bound: "digitsValue 10 ds \<le> 2 ^ 53"
    and exact: "\<bar>k - q\<bar> \<le> 2 ^ 53"
  shows "parseInt approx (countInput s) = Num k
    \<and> modalVisible (saveCount approx s) = False
    \<and> length (items (saveCount approx s)) = length (items s)
    \<and> (\<forall>i < length (items s). items s ! i = sel \<longrightarrow>
          heap (saveCount approx s) ! (items (saveCount approx s) ! i)
            = (heap s ! sel)\<lparr>countedQuantity := Some (Num k), variance := Num (k - q)\<rparr>)"
proof -
  have P: "parseInt approx (countInput s) = Num k"
    unfolding inp k by (rule parseInt_decimal_prefix [OF ws sg ne dig stop nohex bound])
  have ne': "countInput s \<noteq> []" using inp by simp
  note C = saveCount_commit [OF sel ne' wf, of approx, unfolded P sq js_sub_exact [OF exact]]
  show ?thesis using P C by auto
qed

text \<open>
  The inputs \<^verbatim>\<open>12abc\<close> and \<^verbatim>\<open>-12abc\<close> on the seeded item of \<open>systemQuantity\<close>
  25: the count 12 and the variance -13 are committed, and the count -12 and the
  variance -37.
\<close>

theorem saveCount_numeric_prefix_witness:
  "\<forall>approx expo.
     countInput (setCountInput ''12abc'' (openCountModal expo 1 initialState))
       = [] @ [] @ ''12'' @ CHR ''a'' # ''bc''
   \<and> modalVisible (saveCount approx (setCountInput ''12abc'' (openCountModal expo 1 initialState)))
       = False
   \<and> heap (saveCount approx (setCountInput ''12abc'' (openCountModal expo 1 initialState)))
        ! (items (saveCount approx (setCountInput ''12abc'' (openCountModal expo 1 initialState))) ! 1)
      = (seedItems ! 1)\<lparr>countedQuantity := Some (Num 12), variance := Num (- 13)\<rparr>
   \<and> countInput (setCountInput ''-12abc'' (openCountModal expo 1 initialState))
       = [] @ ''-'' @ ''12'' @ CHR ''a'' # ''bc''
   \<and> heap (saveCount approx (setCountInput ''-12abc'' (openCountModal expo 1 initialState)))
        ! (items (saveCount approx (setCountInput ''-12abc'' (openCountModal expo 1 initialState))) ! 1)
      = (seedItems ! 1)\<lparr>countedQuantity := Some (Num (- 12)), variance := Num (- 37)\<rparr>"
proof (intro allI)
  fix approx :: "string \<Rightarrow> int" and expo :: "int \<Rightarrow> string"
  let ?s = "setCountInput ''12abc'' (openCountModal expo 1 initialState)"
  let ?t = "setCountInput ''-12abc'' (openCountModal expo 1 initialState)"
  have h1: "\<forall>r \<in> set (items ?s). r < length (heap ?s)" by code_simp
  have h2: "selectedItem ?s = Some 1" by code_simp
  have h3: "countInput ?s = [] @ [] @ ''12'' @ CHR ''a'' # ''bc''" by code_simp
  have t1: "\<forall>r \<in> set (items ?t). r < length (heap ?t)" by code_simp
  have t2: "selectedItem ?t = Some 1" by code_simp
  have t3: "countInput ?t = [] @ ''-'' @ ''12'' @ CHR ''a'' # ''bc''" by code_simp
  have w: "list_all isWhiteSpace []" by simp
  have sg0: "([] :: string) = [] \<or> [] = ''+'' \<or> [] = ''-''" by simp
  have sg1: "''-'' = [] \<or> ''-'' = ''+'' \<or> ''-'' = ''-''" by simp
  have h4: "''12'' \<noteq> []" by simp
  have h5: "list_all (\<lambda>d. digitValue d < 10) ''12''" by code_simp
  have h6: "\<not> digitValue (CHR ''a'') < 10" by code_simp
  have h7: "\<not> (''12'' = ''0'' \<and> (CHR ''a'' = CHR ''x'' \<or> CHR ''a'' = CHR ''X''))" by simp
  have h8: "systemQuantity (heap ?s ! 1) = Num 25" by code_simp
  have t8: "systemQuantity (heap ?t ! 1) = Num 25" by code_simp
  have v: "digitsValue 10 ''12'' = 12" by code_simp
  have k0: "(12 :: int) = (if ([] :: string) = ''-'' then - 1 else 1) * digitsValue 10 ''12''"
    unfolding v by simp
  have k1: "(- 12 :: int) = (if ''-'' = ''-'' then - 1 else 1) * digitsValue 10 ''12''"
    unfolding v by simp
  have b: "digitsValue 10 ''12'' \<le> 2 ^ 53" unfolding v by simp
  have e0: "\<bar>12 - 25 :: int\<bar> \<le> 2 ^ 53" by simp
  have e1: "\<bar>- 12 - 25 :: int\<bar> \<le> 2 ^ 53" by simp
  note T = saveCount_numeric_prefix [OF h1 h2 h3 w sg0 h4 h5 h6 h7 h8 k0 b e0, of approx]
  note U = saveCount_numeric_prefix [OF t1 t2 t3 w sg1 h4 h5 h6 h7 t8 k1 b e1, of approx]
  have g: "items ?s ! 1 = 1" "1 < length (items ?s)" "heap ?s ! 1 = seedItems ! 1"
    "items ?t ! 1 = 1" "1 < length (items ?t)" "heap ?t ! 1 = seedItems ! 1"
    by code_simp+
  from T have "\<forall>i < length (items ?s). items ?s ! i = 1 \<longrightarrow>
          heap (saveCount approx ?s) ! (items (saveCount approx ?s) ! i)
            = (heap ?s ! 1)\<lparr>countedQuantity := Some (Num 12), variance := Num (12 - 25)\<rparr>"
    by blast
  with g(1) g(2) have "heap (saveCount approx ?s) ! (items (saveCount approx ?s) ! 1)
            = (heap ?s ! 1)\<lparr>countedQuantity := Some (Num 12), variance := Num (12 - 25)\<rparr>"
    by blast
  then have B: "heap (saveCount approx ?s) ! (items (saveCount approx ?s) ! 1)
      = (seedItems ! 1)\<lparr>countedQuantity := Some (Num 12), variance := Num (- 13)\<rparr>"
    unfolding g(3) by simp
  from U have "\<forall>i < length (items ?t). items ?t ! i = 1 \<longrightarrow>
          heap (saveCount approx ?t) ! (items (saveCount approx ?t) ! i)
            = (heap ?t ! 1)\<lparr>countedQuantity := Some (Num (- 12)), variance := Num (- 12 - 25)\<rparr>"
    by blast
  with g(4) g(5) have "heap (saveCount approx ?t) ! (items (saveCount approx ?t) ! 1)
            = (heap ?t ! 1)\<lparr>countedQuantity := Some (Num (- 12)), variance := Num (- 12 - 25)\<rparr>"
    by blast
  then have B': "heap (saveCount approx ?t) ! (items (saveCount approx ?t) ! 1)
      = (seedItems ! 1)\<lparr>countedQuantity := Some (Num (- 12)), variance := Num (- 37)\<rparr>"
    unfolding g(6) by simp
  show "countInput ?s = [] @ [] @ ''12'' @ CHR ''a'' # ''bc''
   \<and> modalVisible (saveCount approx ?s) = False
   \<and> heap (saveCount approx ?s) ! (items (saveCount approx ?s) ! 1)
      = (seedItems ! 1)\<lparr>countedQuantity := Some (Num 12), variance := Num (- 13)\<rparr>
   \<and> countInput ?t = [] @ ''-'' @ ''12'' @ CHR ''a'' # ''bc''
   \<and> heap (saveCount approx ?t) ! (items (saveCount approx ?t) ! 1)
      = (seedItems ! 1)\<lparr>countedQuantity := Some (Num (- 12)), variance := Num (- 37)\<rparr>"
    using B B' T h3 t3 by simp
qed

text \<open>
  C10 as stated fails at the input \<^verbatim>\<open>0x1F\<close>: its leading decimal integer is 0 and
  the character after it is not a digit, but \<open>parseInt\<close> reads the prefix \<^verbatim>\<open>0x\<close>
  as the mark of a hexadecimal numeral, and the count 31 is committed. It fails also
  at the input \<^verbatim>\<open>100000000000000000 pcs\<close>: the count \<open>10 ^ 17\<close> is committed
  with the variance 99999999999999968, the double nearest to \<open>10 ^ 17 - 25\<close>.
\<close>

theorem saveCount_hex_prefix_counterexample:
  "\<forall>approx expo.
     countInput (setCountInput ''0x1F'' (openCountModal expo 1 initialState))
       = ''0'' @ CHR ''x'' # ''1F''
   \<and> list_all (\<lambda>d. digitValue d < 10) ''0'' \<and> \<not> digitValue (CHR ''x'') < 10
   \<and> digitsValue 10 ''0'' = 0
   \<and> systemQuantity (heap initialState ! 1) = Num 25
   \<and> countedQuantity
       (heap (saveCount approx (setCountInput ''0x1F'' (openCountModal expo 1 initialState)))
        ! (items (saveCount approx (setCountInput ''0x1F'' (openCountModal expo 1 initialState))) ! 1))
      = Some (Num 31)
   \<and> variance
       (heap (saveCount approx (setCountInput ''0x1F'' (openCountModal expo 1 initialState)))
        ! (items (saveCount approx (setCountInput ''0x1F'' (openCountModal expo 1 initialState))) ! 1))
      = Num 6
   \<and> countInput (setCountInput ''100000000000000000 pcs'' (openCountModal expo 1 initialState))
       = ''100000000000000000'' @ CHR '' '' # ''pcs''
   \<and> list_all (\<lambda>d. digitValue d < 10) ''100000000000000000'' \<and> \<not> digitValue (CHR '' '') < 10
   \<and> digitsValue 10 ''100000000000000000'' = 100000000000000000
   \<and> countedQuantity
       (heap (saveCount approx (setCountInput ''100000000000000000 pcs''
          (openCountModal expo 1 initialState)))
        ! (items (saveCount approx (setCountInput ''100000000000000000 pcs''
             (openCountModal expo 1 initialState))) ! 1))
      = Some (Num 100000000000000000)
   \<and> variance
       (heap (saveCount approx (setCountInput ''100000000000000000 pcs''
          (openCountModal expo 1 initialState)))
        ! (items (saveCount approx (setCountInput ''100000000000000000 pcs''
             (openCountModal expo 1 initialState))) ! 1))
      = Num 99999999999999968
   \<and> Num 99999999999999968 \<noteq> Num (100000000000000000 - 25)"
  by (intro allI conjI) code_simp+

section \<open>The invariant of the variance\<close>

text \<open>
  C3 at the state that the input \<^verbatim>\<open>abc\<close> leaves (the failing input of C2). The
  second seeded item is opened in the modal, \<^verbatim>\<open>abc\<close> is typed and saved: the state
  is one of the screen, the new item is counted, with the count \<^verbatim>\<open>NaN\<close> and the
  variance \<^verbatim>\<open>NaN\<close>, and \<^verbatim>\<open>variance == countedQuantity - systemQuantity\<close> is false
  of it, since \<^verbatim>\<open>NaN\<close> equals nothing.
\<close>

theorem variance_invariant_fails_after_NaN:
  "\<forall>approx expo.
     reachable (saveCount approx (setCountInput ''abc'' (openCountModal expo 1 initialState)))
   \<and> items (saveCount approx (setCountInput ''abc'' (openCountModal expo 1 initialState))) ! 1
       = 5
   \<and> countedQuantity
       (heap (saveCount approx (setCountInput ''abc'' (openCountModal expo 1 initialState))) ! 5)
       = Some NaN
   \<and> variance
       (heap (saveCount approx (setCountInput ''abc'' (openCountModal expo 1 initialState))) ! 5)
       = NaN
   \<and> js_sub NaN
       (systemQuantity
         (heap (saveCount approx (setCountInput ''abc'' (openCountModal expo 1 initialState))) ! 5))
       = NaN
   \<and> \<not> strictEquals NaN NaN
   \<and> \<not> varianceInvariant
         (heap (saveCount approx (setCountInput ''abc'' (openCountModal expo 1 initialState))) ! 5)"
proof (intro allI conjI)
  fix approx :: "string \<Rightarrow> int" and expo :: "int \<Rightarrow> string"
  have m: "1 \<in> set (items initialState)" by code_simp
  show "reachable (saveCount approx (setCountInput ''abc'' (openCountModal expo 1 initialState)))"
    by (intro reachable.save reachable.typing reachable.openModal reachable.initial m)
qed code_simp+

section \<open>Expanding locations\<close>

text \<open>
  C9. Toggling a location twice gives back the members the set of expanded locations
  had; one toggle removes the location when it is a member and adds it when it is not.
\<close>

theorem toggleLocationExpansion_involution:
  "set (expandedLocations (toggleLocationExpansion loc (toggleLocationExpansion loc s)))
     = set (expandedLocations s)
   \<and> set (expandedLocations (toggleLocationExpansion loc s))
     = (if loc \<in> set (expandedLocations s) then set (expandedLocations s) - {loc}
        else insert loc (set (expandedLocations s)))"
  by (auto simp: toggleLocationExpansion_def toggleLocation_def)

section \<open>Grouping by location\<close>

text \<open>\<open>firstSeen\<close> keeps the first occurrence of every value, in order.\<close>

lemma set_firstSeen: "set (firstSeen xs) = set xs"
  by (induction xs) auto

lemma distinct_firstSeen: "distinct (firstSeen xs)"
  by (induction xs) (auto simp: set_firstSeen)

lemma remdups_snoc: "remdups (ys @ [x]) = filter (\<lambda>y. y \<noteq> x) (remdups ys) @ [x]"
  by (induction ys) auto

lemma firstSeen_remdups: "firstSeen xs = rev (remdups (rev xs))"
  by (induction xs) (simp_all add: remdups_snoc rev_filter)

lemma map_fst_setProperty:
  "map fst (setProperty k v obj)
     = (if k \<in> fst ` set obj then map fst obj else map fst obj @ [k])"
  by (induction obj) force+

lemma map_of_setProperty: "map_of (setProperty k v obj) = (map_of obj)(k \<mapsto> v)"
  by (induction obj) auto

lemma keys_setProperty: "fst ` set (setProperty k v obj) = insert k (fst ` set obj)"
  using arg_cong [OF map_fst_setProperty [of k v obj], of set] by auto

lemma setProperty_twice: "setProperty k w (setProperty k v obj) = setProperty k w obj"
  by (induction obj) auto

lemma groupStep_plain:
  assumes "location (h ! r) \<notin> set objectPrototypeKeys"
  shows "groupStep h acc r
     = Inr (setProperty (location (h ! r))
              ((case map_of acc (location (h ! r)) of None \<Rightarrow> [] | Some arr \<Rightarrow> arr) @ [r]) acc)"
proof (cases "map_of acc (location (h ! r))")
  case None
  then have "getProperty acc (location (h ! r)) = Undefined"
    using assms by (simp add: getProperty_def)
  moreover have "getProperty (setProperty (location (h ! r)) [] acc) (location (h ! r)) = Own []"
    by (simp add: getProperty_def map_of_setProperty)
  ultimately show ?thesis using None
    by (simp add: groupStep_def Let_def setProperty_twice)
next
  case (Some arr)
  then show ?thesis by (simp add: groupStep_def getProperty_def Let_def)
qed

lemma reduceItems_plain:
  assumes "\<forall>r \<in> set its. location (h ! r) \<notin> set objectPrototypeKeys"
  shows "reduceItems h acc its = Inr (grouping h acc its)"
  using assms by (induction its arbitrary: acc) (simp_all add: groupStep_plain)

lemma keys_grouping:
  "map fst (grouping h acc its)
     = map fst acc @ filter (\<lambda>k. k \<notin> fst ` set acc) (firstSeen (map (\<lambda>r. location (h ! r)) its))"
proof (induction its arbitrary: acc)
  case Nil
  show ?case by simp
next
  case (Cons r its)
  let ?k = "location (h ! r)"
  let ?rest = "firstSeen (map (\<lambda>r. location (h ! r)) its)"
  show ?case
  proof (cases "?k \<in> fst ` set acc")
    case True
    have "filter (\<lambda>k. k \<notin> fst ` set acc) (filter (\<lambda>y. y \<noteq> ?k) ?rest)
            = filter (\<lambda>k. k \<notin> fst ` set acc) ?rest"
      using True by (auto simp: filter_filter intro: filter_cong)
    then show ?thesis using True
      by (simp add: Cons.IH map_fst_setProperty keys_setProperty insert_absorb)
  next
    case False
    have "filter (\<lambda>k. k \<notin> fst ` set acc) (filter (\<lambda>y. y \<noteq> ?k) ?rest)
            = filter (\<lambda>k. k \<noteq> ?k \<and> k \<notin> fst ` set acc) ?rest"
      by (auto simp: filter_filter intro: filter_cong)
    then show ?thesis using False
      by (simp add: Cons.IH map_fst_setProperty keys_setProperty)
  qed
qed

lemma map_of_grouping:
  "map_of (grouping h acc its) k
     = (if map_of acc k = None \<and> filter (\<lambda>r. location (h ! r) = k) its = [] then None
        else Some ((case map_of acc k of None \<Rightarrow> [] | Some arr \<Rightarrow> arr)
                    @ filter (\<lambda>r. location (h ! r) = k) its))"
proof (induction its arbitrary: acc)
  case Nil
  show ?case by (cases "map_of acc k") simp_all
next
  case (Cons r its)
  show ?case by (cases "map_of acc k") (simp_all add: Cons.IH map_of_setProperty)
qed

lemma alist_by_keys:
  assumes "distinct (map fst obj)"
  shows "map (\<lambda>k. (k, the (map_of obj k))) (map fst obj) = obj"
  using assms
proof (induction obj)
  case Nil
  show ?case by simp
next
  case (Cons p obj)
  obtain a b where p: "p = (a, b)" by (cases p)
  have a: "a \<notin> fst ` set obj" and d: "distinct (map fst obj)" using Cons.prems p by auto
  have "map (\<lambda>k. (k, the (map_of (p # obj) k))) (map fst obj)
          = map (\<lambda>k. (k, the (map_of obj k))) (map fst obj)"
  proof (rule map_cong [OF refl])
    fix k assume "k \<in> set (map fst obj)"
    then have "k \<noteq> a" using a by auto
    then show "(k, the (map_of (p # obj) k)) = (k, the (map_of obj k))" using p by simp
  qed
  also have "\<dots> = obj" by (rule Cons.IH [OF d])
  finally have "map (\<lambda>k. (k, the (map_of (p # obj) k))) (map fst obj) = obj" .
  then show ?case unfolding p by simp
qed

text \<open>
  For a collection in which no location is a property name of
  \<^verbatim>\<open>Object.prototype\<close> and no location is an array index, the grouping succeeds and
  its entries are, in the order in which the locations are first seen, each location
  with the items of that location in the order of the collection.
\<close>

lemma groupedItems_plain_names:
  assumes plain: "\<forall>r \<in> set its. location (h ! r) \<notin> set objectPrototypeKeys"
    and noindex: "\<forall>r \<in> set its. \<not> isArrayIndex (location (h ! r))"
  shows "\<exists>obj. groupedItems h its = Inr obj
    \<and> ObjectEntries obj
        = map (\<lambda>k. (k, filter (\<lambda>r. location (h ! r) = k) its))
            (firstSeen (map (\<lambda>r. location (h ! r)) its))"
proof -
  let ?obj = "grouping h [] its"
  let ?keys = "firstSeen (map (\<lambda>r. location (h ! r)) its)"
  have R: "groupedItems h its = Inr ?obj"
    unfolding groupedItems_def by (rule reduceItems_plain [OF plain])
  have K: "map fst ?obj = ?keys" using keys_grouping [of h "[]" its] by simp
  have V: "the (map_of ?obj k) = filter (\<lambda>r. location (h ! r) = k) its" if "k \<in> set ?keys" for k
  proof -
    have "filter (\<lambda>r. location (h ! r) = k) its \<noteq> []"
      using that by (auto simp: set_firstSeen filter_empty_conv)
    then show ?thesis by (simp add: map_of_grouping)
  qed
  have "?obj = map (\<lambda>k. (k, the (map_of ?obj k))) (map fst ?obj)"
    by (rule alist_by_keys [symmetric]) (simp add: K distinct_firstSeen)
  also have "\<dots> = map (\<lambda>k. (k, filter (\<lambda>r. location (h ! r) = k) its)) ?keys"
    unfolding K by (rule map_cong [OF refl]) (simp add: V)
  finally have O: "?obj = map (\<lambda>k. (k, filter (\<lambda>r. location (h ! r) = k) its)) ?keys" .
  have "\<forall>kv \<in> set ?obj. \<not> isArrayIndex (fst kv)"
  proof
    fix kv assume "kv \<in> set ?obj"
    then have "fst kv \<in> set (map fst ?obj)" by simp
    then have "fst kv \<in> set ?keys" unfolding K .
    then show "\<not> isArrayIndex (fst kv)" using noindex by (auto simp: set_firstSeen)
  qed
  then have "filter (\<lambda>kv. isArrayIndex (fst kv)) ?obj = []"
    and "filter (\<lambda>kv. \<not> isArrayIndex (fst kv)) ?obj = ?obj"
    by (simp_all add: filter_empty_conv filter_id_conv)
  then have "ObjectEntries ?obj = ?obj" by (simp add: ObjectEntries_def)
  then show ?thesis using R O by simp
qed

text \<open>The five locations of the application are such names.\<close>

lemma locations_plain:
  "list_all (\<lambda>l. l \<notin> set objectPrototypeKeys \<and> \<not> isArrayIndex l) locations"
  by code_simp

text \<open>
  C8. For every collection of items whose locations are locations of the application
  (\<open>locations\<close>, the names that the data model enumerates), on any store: the
  grouping succeeds, and its entries, as the item tab lists them, are the locations in
  the order in which the scan of the collection first sees them, each with exactly the
  items of that location, in the order of the collection; so no item is dropped and
  none is listed twice.
\<close>

theorem groupedItems_by_location:
  assumes known: "\<forall>r \<in> set its. location (h ! r) \<in> set locations"
  shows "\<exists>obj. groupedItems h its = Inr obj
    \<and> ObjectEntries obj
        = map (\<lambda>k. (k, filter (\<lambda>r. location (h ! r) = k) its))
            (firstSeen (map (\<lambda>r. location (h ! r)) its))"
proof -
  have each: "l \<notin> set objectPrototypeKeys \<and> \<not> isArrayIndex l" if "l \<in> set locations" for l
    using locations_plain that by (simp add: list_all_iff)
  have plain: "\<forall>r \<in> set its. location (h ! r) \<notin> set objectPrototypeKeys"
    and noindex: "\<forall>r \<in> set its. \<not> isArrayIndex (location (h ! r))"
    using known each by blast+
  show ?thesis by (rule groupedItems_plain_names [OF plain noindex])
qed

text \<open>The seeded items: Warehouse A with the items 1, 2 and 4, then Warehouse B with 3 and 5.\<close>

theorem groupedItems_by_location_witness:
  "groupedItems (heap initialState) (items initialState)
     = Inr [(''Warehouse A'', [0, 1, 3]), (''Warehouse B'', [2, 4])]
   \<and> ObjectEntries [(''Warehouse A'', [0, 1, 3 :: nat]), (''Warehouse B'', [2, 4])]
     = [(''Warehouse A'', [0, 1, 3]), (''Warehouse B'', [2, 4])]
   \<and> map (\<lambda>r. location (heap initialState ! r)) (items initialState)
     = [''Warehouse A'', ''Warehouse A'', ''Warehouse B'', ''Warehouse A'', ''Warehouse B'']"
proof -
  let ?h = "heap initialState" and ?its = "items initialState"
  have h1: "\<forall>r \<in> set ?its. location (?h ! r) \<in> set locations" by code_simp
  from groupedItems_by_location [OF h1]
  obtain obj where o: "groupedItems ?h ?its = Inr obj"
    "ObjectEntries obj = map (\<lambda>k. (k, filter (\<lambda>r. location (?h ! r) = k) ?its))
            (firstSeen (map (\<lambda>r. location (?h ! r)) ?its))" by blast
  have e: "map (\<lambda>k. (k, filter (\<lambda>r. location (?h ! r) = k) ?its))
            (firstSeen (map (\<lambda>r. location (?h ! r)) ?its))
          = [(''Warehouse A'', [0, 1, 3]), (''Warehouse B'', [2, 4])]" by code_simp
  have g: "groupedItems ?h ?its = Inr [(''Warehouse A'', [0, 1, 3]), (''Warehouse B'', [2, 4])]"
    by code_simp
  have l: "map (\<lambda>r. location (?h ! r)) ?its
     = [''Warehouse A'', ''Warehouse A'', ''Warehouse B'', ''Warehouse A'', ''Warehouse B'']"
    by code_simp
  from o(1) g have "obj = [(''Warehouse A'', [0, 1, 3]), (''Warehouse B'', [2, 4])]" by simp
  then show ?thesis using o(2) e g l by simp
qed

text \<open>
  In every state of the screen the items are in locations of the application: saving a
  count copies the location of the item.
\<close>

lemma location_saveCount:
  assumes wf: "\<forall>r \<in> set (items s). r < length (heap s)"
    and known: "\<forall>r \<in> set (items s). location (heap s ! r) \<in> set locations"
  shows "\<forall>r \<in> set (items (saveCount approx s)). location (heap (saveCount approx s) ! r) \<in> set locations"
proof (cases "selectedItem s = None \<or> countInput s = []")
  case True
  then show ?thesis using known by (simp add: saveCount_noop)
next
  case False
  then obtain sel where sel: "selectedItem s = Some sel" and ne: "countInput s \<noteq> []" by auto
  let ?t = "saveCount approx s"
  note C = saveCount_commit [OF sel ne wf, of approx]
  have len: "length (items ?t) = length (items s)" using C by simp
  have pre: "take (length (heap s)) (heap ?t) = heap s" using C by simp
  have old: "heap ?t ! r = heap s ! r" if "r < length (heap s)" for r
  proof -
    have "heap ?t ! r = take (length (heap s)) (heap ?t) ! r" using that by simp
    then show ?thesis using pre by simp
  qed
  show ?thesis
  proof
    fix r assume rin: "r \<in> set (items ?t)"
    then obtain i where i: "i < length (items s)" and r: "r = items ?t ! i"
      using len by (auto simp: in_set_conv_nth)
    have mem: "items s ! i \<in> set (items s)" and lt: "items s ! i < length (heap s)"
      using i wf by simp_all
    from C i have "location (heap ?t ! (items ?t ! i)) = location (heap s ! (items s ! i))"
      using old [OF lt] by (auto split: if_splits)
    then show "location (heap ?t ! r) \<in> set locations" using known mem r by simp
  qed
qed

lemma reachable_locations:
  "reachable s \<Longrightarrow> \<forall>r \<in> set (items s). location (heap s ! r) \<in> set locations"
proof (induction rule: reachable.induct)
  case initial
  show ?case by code_simp
next
  case (save s approx)
  have "\<forall>r \<in> set (items s). r < length (heap s)"
    using reachable_viewInvariant [OF save.hyps] by (simp add: viewInvariant_def list_all_iff)
  then show ?case using save.IH by (rule location_saveCount)
qed (simp_all add: setActiveTab_def toggleSheetExpansion_def toggleLocationExpansion_def
      openCountModal_def Let_def setCountInput_def cancelModal_def)

lemma groupedItems_reachable:
  assumes "reachable s"
  shows "\<exists>obj. groupedItems (heap s) (items s) = Inr obj
    \<and> ObjectEntries obj
        = map (\<lambda>k. (k, filter (\<lambda>r. location (heap s ! r) = k) (items s)))
            (firstSeen (map (\<lambda>r. location (heap s ! r)) (items s)))"
proof -
  have each: "l \<notin> set objectPrototypeKeys \<and> \<not> isArrayIndex l" if "l \<in> set locations" for l
    using locations_plain that by (simp add: list_all_iff)
  have plain: "\<forall>r \<in> set (items s). location (heap s ! r) \<notin> set objectPrototypeKeys"
    and noindex: "\<forall>r \<in> set (items s). \<not> isArrayIndex (location (heap s ! r))"
    using reachable_locations [OF assms] each by blast+
  show ?thesis by (rule groupedItems_plain_names [OF plain noindex])
qed

text \<open>
  The names of the application matter. With locations named \<^verbatim>\<open>2\<close> and \<^verbatim>\<open>1\<close>,
  which no state of the screen holds, \<^verbatim>\<open>Object.entries\<close> lists the key \<^verbatim>\<open>1\<close>
  first, and with a location named \<^verbatim>\<open>constructor\<close> the grouping throws.
\<close>

lemma groupedItems_index_keys:
  "groupedItems numberedItems [0, 1] = Inr [(''2'', [0]), (''1'', [1])]
   \<and> map fst (ObjectEntries [(''2'', [0 :: nat]), (''1'', [1])]) = [''1'', ''2'']
   \<and> firstSeen (map (\<lambda>r. location (numberedItems ! r)) [0, 1]) = [''2'', ''1'']"
  by code_simp

lemma groupedItems_prototype_name: "groupedItems numberedItems [0, 1, 2] = Inl TypeError"
  by code_simp

section \<open>Years and days\<close>

lemma div_pred:
  fixes y n :: int
  assumes "0 < n"
  shows "y div n - (y - 1) div n = (if y mod n = 0 then 1 else 0)"
proof (cases "y mod n = 0")
  case True
  have eq: "y - 1 = n * (y div n - 1) + (n - 1)"
    using True mult_div_mod_eq [of n y] by (simp add: algebra_simps)
  have "(y - 1) div n = y div n - 1"
    by (rule int_div_pos_eq [OF eq]) (use assms in simp_all)
  then show ?thesis using True by simp
next
  case False
  have m: "0 \<le> y mod n" "y mod n < n" using assms by simp_all
  have eq: "y - 1 = n * (y div n) + (y mod n - 1)"
    using mult_div_mod_eq [of n y] by (simp add: algebra_simps)
  have "(y - 1) div n = y div n"
    by (rule int_div_pos_eq [OF eq]) (use m False in linarith)+
  then show ?thesis using False by simp
qed

lemma DayFromYear_alt:
  "DayFromYear y = 365 * (y - 1) + (y - 1) div 4 - (y - 1) div 100 + (y - 1) div 400 - 719162"
proof -
  have h1: "(y - 1969) div 4 = (y - 1) div 4 - 492" by linarith
  have h2: "(y - 1901) div 100 = (y - 1) div 100 - 19" by linarith
  have h3: "(y - 1601) div 400 = (y - 1) div 400 - 4" by linarith
  show ?thesis unfolding DayFromYear_def h1 h2 h3 by simp
qed

text \<open>The day on which a year begins and the length of the year give the next year's.\<close>

lemma DayFromYear_step: "DayFromYear (y + 1) = DayFromYear y + DaysInYear y"
proof -
  define p4 p100 p400 where "p4 = (y - 1) div 4" and "p100 = (y - 1) div 100"
    and "p400 = (y - 1) div 400"
  have s4: "y div 4 = p4 + (if y mod 4 = 0 then 1 else 0)"
    unfolding p4_def using div_pred [of 4 y] by simp
  have s100: "y div 100 = p100 + (if y mod 100 = 0 then 1 else 0)"
    unfolding p100_def using div_pred [of 100 y] by simp
  have s400: "y div 400 = p400 + (if y mod 400 = 0 then 1 else 0)"
    unfolding p400_def using div_pred [of 400 y] by simp
  have i1: "y mod 4 = 0" if "y mod 100 = 0"
    using mod_mod_cancel [of 4 100 y] that by simp
  have i2: "y mod 100 = 0" if "y mod 400 = 0"
    using mod_mod_cancel [of 100 400 y] that by simp
  have "DayFromYear (y + 1) = 365 * y + y div 4 - y div 100 + y div 400 - 719162"
    using DayFromYear_alt [of "y + 1"] by simp
  also have "\<dots> = 365 * (y - 1) + p4 - p100 + p400 - 719162 + DaysInYear y"
    unfolding s4 s100 s400 DaysInYear_def using i1 i2 by auto
  also have "\<dots> = DayFromYear y + DaysInYear y"
    unfolding DayFromYear_alt [of y] p4_def p100_def p400_def by simp
  finally show ?thesis .
qed

lemma quad_div4:
  fixes a b c e :: int
  assumes "0 \<le> e" "e \<le> 3"
  shows "(400 * a + 100 * b + 4 * c + e) div 4 = 100 * a + 25 * b + c"
proof -
  have "400 * a + 100 * b + 4 * c + e = e + (100 * a + 25 * b + c) * 4" by simp
  then show ?thesis using assms by (simp only: div_mult_self1)
qed

lemma quad_div100:
  fixes a b c e :: int
  assumes "0 \<le> c" "c \<le> 24" "0 \<le> e" "e \<le> 3"
  shows "(400 * a + 100 * b + 4 * c + e) div 100 = 4 * a + b"
proof -
  have "400 * a + 100 * b + 4 * c + e = (4 * c + e) + (4 * a + b) * 100" by simp
  moreover have "(4 * c + e) div 100 = 0" using assms by simp
  ultimately show ?thesis by (simp only: div_mult_self1)
qed

lemma quad_div400:
  fixes a b c e :: int
  assumes "0 \<le> b" "b \<le> 3" "0 \<le> c" "c \<le> 24" "0 \<le> e" "e \<le> 3"
  shows "(400 * a + 100 * b + 4 * c + e) div 400 = a"
proof -
  have "400 * a + 100 * b + 4 * c + e = (100 * b + 4 * c + e) + a * 400" by simp
  moreover have "(100 * b + 4 * c + e) div 400 = 0" using assms by simp
  ultimately show ?thesis by (simp only: div_mult_self1)
qed

lemma DayFromYear_quad:
  fixes a b c e :: int
  assumes "0 \<le> b" "b \<le> 3" "0 \<le> c" "c \<le> 24" "0 \<le> e" "e \<le> 3"
  shows "DayFromYear (400 * a + 100 * b + 4 * c + e + 1) =
         146097 * a + 36524 * b + 1461 * c + 365 * e - 719162"
  using quad_div4 [of e a b c] quad_div100 [of c e a b] quad_div400 [of b c e a] assms
  by (simp add: DayFromYear_alt)

lemma DaysInYear_quad:
  fixes a b c e :: int
  assumes "0 \<le> b" "b \<le> 3" "0 \<le> c" "c \<le> 24" "0 \<le> e" "e \<le> 3"
  shows "DaysInYear (400 * a + 100 * b + 4 * c + e + 1) =
         (if e = 3 \<and> (c \<noteq> 24 \<or> b = 3) then 366 else 365)"
proof -
  define y where "y = 400 * a + 100 * b + 4 * c + e + 1"
  have m4: "y mod 4 = (e + 1) mod 4"
  proof -
    have "y = (e + 1) + (100 * a + 25 * b + c) * 4" unfolding y_def by simp
    then show ?thesis by (simp only: mod_mult_self1)
  qed
  have m100: "y mod 100 = (4 * c + e + 1) mod 100"
  proof -
    have "y = (4 * c + e + 1) + (4 * a + b) * 100" unfolding y_def by simp
    then show ?thesis by (simp only: mod_mult_self1)
  qed
  have m400: "y mod 400 = (100 * b + 4 * c + e + 1) mod 400"
  proof -
    have "y = (100 * b + 4 * c + e + 1) + a * 400" unfolding y_def by simp
    then show ?thesis by (simp only: mod_mult_self1)
  qed
  have A: "(y mod 4 \<noteq> 0) = (e \<noteq> 3)"
  proof -
    have "e = 0 \<or> e = 1 \<or> e = 2 \<or> e = 3" using \<open>0 \<le> e\<close> \<open>e \<le> 3\<close> by linarith
    then show ?thesis unfolding m4 by auto
  qed
  have B: "(y mod 100 \<noteq> 0) = (c \<noteq> 24)" if "e = 3"
  proof (cases "c = 24")
    case True
    then show ?thesis unfolding m100 using that by simp
  next
    case False
    then have "0 < 4 * c + e + 1" "4 * c + e + 1 < 100"
      using \<open>0 \<le> c\<close> \<open>c \<le> 24\<close> that by linarith+
    then have "(4 * c + e + 1) mod 100 = 4 * c + e + 1" by simp
    then show ?thesis unfolding m100 using False \<open>0 < 4 * c + e + 1\<close> by simp
  qed
  have C: "(y mod 400 \<noteq> 0) = (b \<noteq> 3)" if "e = 3" "c = 24"
  proof -
    have "b = 0 \<or> b = 1 \<or> b = 2 \<or> b = 3" using \<open>0 \<le> b\<close> \<open>b \<le> 3\<close> by linarith
    then show ?thesis unfolding m400 using that by auto
  qed
  have "DaysInYear y = (if e = 3 \<and> (c \<noteq> 24 \<or> b = 3) then 366 else 365)"
    unfolding DaysInYear_def using A B C by (cases "e = 3"; cases "c = 24"; simp)
  then show ?thesis unfolding y_def .
qed

lemma split_cycle:
  fixes r q m b r2 c r3 q3 m3 e :: int
  assumes r: "0 \<le> r" "r < 146097"
    and q: "r = 36524 * q + m" "0 \<le> m" "m < 36524"
    and b: "b = min q 3"
    and r2: "r2 = r - b * 36524"
    and c: "r2 = 1461 * c + r3" "0 \<le> r3" "r3 < 1461"
    and q3: "r3 = 365 * q3 + m3" "0 \<le> m3" "m3 < 365"
    and e: "e = min q3 3"
  shows "0 \<le> b \<and> b \<le> 3 \<and> 0 \<le> c \<and> c \<le> 24 \<and> 0 \<le> e \<and> e \<le> 3
    \<and> r = 36524 * b + 1461 * c + r3
    \<and> 365 * e \<le> r3
    \<and> r3 - 365 * e < (if e = 3 \<and> (c \<noteq> 24 \<or> b = 3) then 366 else 365)"
proof -
  have q0: "0 \<le> q" "q \<le> 4" using r q by linarith+
  have b03: "0 \<le> b" "b \<le> 3" unfolding b using q0 by linarith+
  have r2b: "0 \<le> r2 \<and> r2 \<le> 36524 \<and> (r2 = 36524 \<longrightarrow> b = 3)"
  proof (cases "q \<le> 3")
    case True
    then have "b = q" unfolding b by simp
    then have "r2 = m" using r2 q by simp
    then show ?thesis using q by simp
  next
    case False
    then have "q = 4" using q0 by linarith
    then have "b = 3" unfolding b by simp
    moreover have "m = 0" using r q \<open>q = 4\<close> by linarith
    ultimately have "r2 = 36524" using r2 q \<open>q = 4\<close> by simp
    then show ?thesis using \<open>b = 3\<close> by simp
  qed
  have c024: "0 \<le> c" "c \<le> 24" using r2b c by linarith+
  have q30: "0 \<le> q3" "q3 \<le> 4" using c q3 by linarith+
  have e03: "0 \<le> e" "e \<le> 3" unfolding e using q30 by linarith+
  have rem: "365 * e \<le> r3 \<and> r3 - 365 * e \<le> 365
      \<and> (r3 - 365 * e = 365 \<longrightarrow> e = 3 \<and> r3 = 1460)"
  proof (cases "q3 \<le> 3")
    case True
    then have "e = q3" unfolding e by simp
    then show ?thesis using q3 by simp
  next
    case False
    then have "q3 = 4" using q30 by linarith
    then have "e = 3" unfolding e by simp
    moreover have "m3 = 0" using c q3 \<open>q3 = 4\<close> by linarith
    ultimately show ?thesis using q3 \<open>q3 = 4\<close> by simp
  qed
  have cb: "c = 24 \<and> r3 = 1460 \<longrightarrow> b = 3"
  proof
    assume "c = 24 \<and> r3 = 1460"
    then have "r2 = 36524" using c by simp
    then show "b = 3" using r2b by simp
  qed
  have lt: "r3 - 365 * e < (if e = 3 \<and> (c \<noteq> 24 \<or> b = 3) then 366 else 365)"
  proof (cases "r3 - 365 * e = 365")
    case True
    then have "e = 3" "r3 = 1460" using rem by simp_all
    then show ?thesis using cb by auto
  next
    case False
    then have "r3 - 365 * e < 365" using rem by linarith
    then show ?thesis by simp
  qed
  have "r = 36524 * b + 1461 * c + r3" using c r2 by simp
  then show ?thesis using b03 c024 e03 rem lt by simp
qed

text \<open>
  \<open>YearFromDay\<close> is the year that ECMAScript defines: the year \<open>y\<close> with
  \<open>DayFromYear y \<le> d < DayFromYear (y + 1)\<close>.
\<close>

lemma YearFromDay_correct:
  "DayFromYear (YearFromDay d) \<le> d \<and> d < DayFromYear (YearFromDay d + 1)"
proof -
  define n where "n = d + 719162"
  define a r where "a = n div 146097" and "r = n mod 146097"
  define q m where "q = r div 36524" and "m = r mod 36524"
  define b where "b = min q 3"
  define r2 where "r2 = r - b * 36524"
  define c r3 where "c = r2 div 1461" and "r3 = r2 mod 1461"
  define q3 m3 where "q3 = r3 div 365" and "m3 = r3 mod 365"
  define e where "e = min q3 3"
  define y where "y = 400 * a + 100 * b + 4 * c + e + 1"
  have n: "n = 146097 * a + r" unfolding a_def r_def by simp
  have r: "0 \<le> r" "r < 146097" unfolding r_def by simp_all
  have split: "0 \<le> b \<and> b \<le> 3 \<and> 0 \<le> c \<and> c \<le> 24 \<and> 0 \<le> e \<and> e \<le> 3
    \<and> r = 36524 * b + 1461 * c + r3
    \<and> 365 * e \<le> r3
    \<and> r3 - 365 * e < (if e = 3 \<and> (c \<noteq> 24 \<or> b = 3) then 366 else 365)"
  proof (rule split_cycle [where q = q and m = m and ?r2.0 = r2 and ?q3.0 = q3 and ?m3.0 = m3])
    show "0 \<le> r" "r < 146097" by (fact r)+
    show "r = 36524 * q + m" unfolding q_def m_def by simp
    show "0 \<le> m" "m < 36524" unfolding m_def by simp_all
    show "b = min q 3" by (fact b_def)
    show "r2 = r - b * 36524" by (fact r2_def)
    show "r2 = 1461 * c + r3" unfolding c_def r3_def by simp
    show "0 \<le> r3" "r3 < 1461" unfolding r3_def by simp_all
    show "r3 = 365 * q3 + m3" unfolding q3_def m3_def by simp
    show "0 \<le> m3" "m3 < 365" unfolding m3_def by simp_all
    show "e = min q3 3" by (fact e_def)
  qed
  then have bnd: "0 \<le> b" "b \<le> 3" "0 \<le> c" "c \<le> 24" "0 \<le> e" "e \<le> 3" by simp_all
  have Y: "YearFromDay d = y"
    unfolding YearFromDay_def Let_def y_def e_def q3_def r3_def c_def r2_def b_def q_def r_def
      a_def n_def by simp
  have D: "DayFromYear y = 146097 * a + 36524 * b + 1461 * c + 365 * e - 719162"
    unfolding y_def by (rule DayFromYear_quad [OF bnd])
  have L: "DaysInYear y = (if e = 3 \<and> (c \<noteq> 24 \<or> b = 3) then 366 else 365)"
    unfolding y_def by (rule DaysInYear_quad [OF bnd])
  have d: "d = 146097 * a + 36524 * b + 1461 * c + r3 - 719162"
    using n split unfolding n_def by linarith
  have "DayFromYear y \<le> d" unfolding D d using split by simp
  moreover have "d < DayFromYear y + DaysInYear y" unfolding D d L using split by simp
  ultimately show ?thesis unfolding Y DayFromYear_step by simp
qed

section \<open>The calendar grid\<close>

text \<open>Time values and day numbers.\<close>

lemma Day_shift: "Day (t + k * msPerDay) = Day t + k"
  by (simp add: Day_def msPerDay_def)

lemma TimeWithinDay_shift: "TimeWithinDay (t + k * msPerDay) = TimeWithinDay t"
  by (simp add: TimeWithinDay_def msPerDay_def)

lemma Day_TimeWithinDay: "Day t * msPerDay + TimeWithinDay t = t"
  by (simp add: Day_def TimeWithinDay_def)

lemma TimeWithinDay_range: "0 \<le> TimeWithinDay t \<and> TimeWithinDay t < msPerDay"
  by (simp add: TimeWithinDay_def msPerDay_def)

lemma Day_MakeDate:
  assumes "0 \<le> w" and "w < msPerDay"
  shows "Day (MakeDate D w) = D"
proof -
  have "(w + D * msPerDay) div msPerDay = D + w div msPerDay"
    by (rule div_mult_self1) (simp add: msPerDay_def)
  moreover have "w div msPerDay = 0" using assms by simp
  ultimately show ?thesis by (simp add: Day_def MakeDate_def add.commute)
qed

lemma MonthFromTime_range: "0 \<le> MonthFromTime t \<and> MonthFromTime t \<le> 11"
  by (simp add: MonthFromTime_def Let_def)

lemma MakeDay_of_time:
  "MakeDay (YearFromTime t) (MonthFromTime t) dt = Day t - DateFromTime t + dt"
proof -
  have "MonthFromTime t div 12 = 0" "MonthFromTime t mod 12 = MonthFromTime t"
    using MonthFromTime_range [of t] by simp_all
  then show ?thesis
    by (simp add: MakeDay_def DateFromTime_def DayWithinYear_def InLeapYear_def Let_def)
qed

text \<open>\<^verbatim>\<open>setDate\<close> keeps the local time of the day and moves the local day.\<close>

lemma setDate_local:
  "setDate tz d dt
     = TimeClip (UTC tz (MakeDate (localDay tz d - getDate tz d + dt)
                           (TimeWithinDay (LocalTime tz d))))"
  by (simp add: setDate_def Let_def MakeDay_of_time localDay_def getDate_def)

lemma cellDate_local:
  "cellDate tz startDate i
     = TimeClip (UTC tz (MakeDate (localDay tz startDate + int i)
                           (TimeWithinDay (LocalTime tz startDate))))"
  by (simp add: cellDate_def setDate_local)

text \<open>The loop returns the cells of the 42 dates, or throws at the first invalid one.\<close>

lemma those_map_Some:
  "(\<And>x. x \<in> set xs \<Longrightarrow> f x = Some (g x)) \<Longrightarrow> those (map f xs) = Some (map g xs)"
  by (induction xs) simp_all

lemma calendarLoop_those:
  "i \<le> 42 \<Longrightarrow> calendarLoop current cell i days
     = (case those (map current [i..<42]) of
          None \<Rightarrow> Inl RangeError
        | Some ds \<Rightarrow> Inr (days @ map cell ds))"
proof (induction current cell i days rule: calendarLoop.induct)
  case (1 current cell i days)
  show ?case
  proof (cases "i < 42")
    case True
    have upt: "[i..<42] = i # [i + 1..<42]" using True by (simp add: upt_conv_Cons)
    show ?thesis
    proof (cases "current i")
      case None
      then show ?thesis using True unfolding upt by (subst calendarLoop.simps) simp
    next
      case (Some d)
      have "calendarLoop current cell i days
              = calendarLoop current cell (i + 1) (days @ [cell d])"
        using True Some by (subst calendarLoop.simps) simp
      also have "\<dots> = (case those (map current [i + 1..<42]) of
                          None \<Rightarrow> Inl RangeError
                        | Some ds \<Rightarrow> Inr ((days @ [cell d]) @ map cell ds))"
        using True Some by (intro "1.IH") simp_all
      also have "\<dots> = (case those (map current [i..<42]) of
                          None \<Rightarrow> Inl RangeError
                        | Some ds \<Rightarrow> Inr (days @ map cell ds))"
        unfolding upt using Some by (simp split: option.splits)
      finally show ?thesis .
    qed
  next
    case False
    then have "i = 42" using "1.prems" by simp
    then show ?thesis by (subst calendarLoop.simps) simp
  qed
qed

lemma generateCalendarDays_those:
  "generateCalendarDays tz now (Some calDate) selected
     = (case gridStart tz calDate of
          None \<Rightarrow> Inl RangeError
        | Some startDate \<Rightarrow>
            (case those (map (cellDate tz startDate) [0..<42]) of
               None \<Rightarrow> Inl RangeError
             | Some ds \<Rightarrow>
                 Inr (map (calendarCell tz (setHoursZero tz now) (getMonth tz calDate) selected)
                        ds)))"
  by (simp add: generateCalendarDays_def gridStart_def Let_def calendarLoop_those
      split: option.splits)

lemma generateCalendarDays_cells:
  assumes "gridStart tz calDate = Some startDate"
    and "those (map (cellDate tz startDate) [0..<42]) = Some ds"
  shows "generateCalendarDays tz now (Some calDate) selected
     = Inr (map (calendarCell tz (setHoursZero tz now) (getMonth tz calDate) selected) ds)"
  using assms by (simp add: generateCalendarDays_those)

text \<open>The day of the month is from 1 to 31.\<close>

lemma DayWithinYear_range:
  "0 \<le> DayWithinYear t \<and> DayWithinYear t < 365 + InLeapYear t"
proof -
  let ?y = "YearFromTime t"
  have "DayFromYear ?y \<le> Day t" "Day t < DayFromYear (?y + 1)"
    using YearFromDay_correct [of "Day t"] by (simp_all add: YearFromTime_def)
  moreover have "DayFromYear (?y + 1) = DayFromYear ?y + DaysInYear ?y"
    by (rule DayFromYear_step)
  moreover have "DaysInYear ?y = 365 + InLeapYear t"
    by (simp add: InLeapYear_def leapOfYear_def DaysInYear_def)
  ultimately show ?thesis unfolding DayWithinYear_def by linarith
qed

lemma DateFromTime_range: "1 \<le> DateFromTime t \<and> DateFromTime t \<le> 31"
proof -
  define d where "d = DayWithinYear t"
  define leap where "leap = InLeapYear t"
  have leap: "leap = 0 \<or> leap = 1" by (simp add: leap_def InLeapYear_def leapOfYear_def)
  have d: "0 \<le> d" "d < 365 + leap" using DayWithinYear_range [of t] by (simp_all add: d_def leap_def)
  show ?thesis
    unfolding DateFromTime_def MonthFromTime_def Let_def d_def [symmetric] leap_def [symmetric]
      firstDayOfMonth_def
    using d leap by auto
qed

section \<open>Dates from their fields\<close>

text \<open>
  The fields of a date made from a year, a month and a day of that month are that year,
  month and day: the year of a day number is unique, and the tables of the months agree.
\<close>

lemma DaysInYear_cases: "DaysInYear y = 365 \<or> DaysInYear y = 366"
  by (simp add: DaysInYear_def)

lemma DayFromYear_less_later: "DayFromYear y < DayFromYear (y + 1 + int k)"
proof (induction k)
  case 0
  show ?case using DayFromYear_step [of y] DaysInYear_cases [of y] by auto
next
  case (Suc k)
  have "DayFromYear (y + 1 + int (Suc k)) = DayFromYear (y + 1 + int k) + DaysInYear (y + 1 + int k)"
    using DayFromYear_step [of "y + 1 + int k"] by (simp add: algebra_simps)
  then show ?case using Suc DaysInYear_cases [of "y + 1 + int k"] by auto
qed

lemma DayFromYear_strict_mono:
  assumes "a < b"
  shows "DayFromYear a < DayFromYear b"
proof -
  have "b = a + 1 + int (nat (b - a - 1))" using assms by simp
  then show ?thesis using DayFromYear_less_later [of a "nat (b - a - 1)"] by simp
qed

lemma YearFromDay_unique:
  assumes "DayFromYear y \<le> d" and "d < DayFromYear (y + 1)"
  shows "YearFromDay d = y"
proof (rule ccontr)
  assume neq: "YearFromDay d \<noteq> y"
  let ?y = "YearFromDay d"
  note C = YearFromDay_correct [of d]
  show False
  proof (cases "?y < y")
    case True
    then have "DayFromYear (?y + 1) \<le> DayFromYear y"
      using DayFromYear_strict_mono [of "?y + 1" y] by (cases "?y + 1 = y") auto
    then show False using C assms by linarith
  next
    case False
    then have "y < ?y" using neq by simp
    then have "DayFromYear (y + 1) \<le> DayFromYear ?y"
      using DayFromYear_strict_mono [of "y + 1" ?y] by (cases "y + 1 = ?y") auto
    then show False using C assms by linarith
  qed
qed

lemma month_cases:
  fixes mn :: int
  assumes "0 \<le> mn" "mn \<le> 11"
  shows "mn = 0 \<or> mn = 1 \<or> mn = 2 \<or> mn = 3 \<or> mn = 4 \<or> mn = 5 \<or> mn = 6 \<or> mn = 7
    \<or> mn = 8 \<or> mn = 9 \<or> mn = 10 \<or> mn = 11"
  using assms by presburger

lemma fields_of_MakeDay:
  assumes mn: "0 \<le> mn" "mn \<le> 11"
    and dt: "1 \<le> dt" "dt \<le> firstDayOfMonth (leapOfYear y) (mn + 1) - firstDayOfMonth (leapOfYear y) mn"
    and t: "Day t = MakeDay y mn dt"
  shows "YearFromTime t = y \<and> MonthFromTime t = mn \<and> DateFromTime t = dt"
proof -
  define leap where "leap = leapOfYear y"
  define w where "w = firstDayOfMonth leap mn + dt - 1"
  have leap: "leap = 0 \<or> leap = 1" by (simp add: leap_def leapOfYear_def)
  have len: "DaysInYear y = 365 + leap"
    using DaysInYear_cases [of y] by (auto simp: leap_def leapOfYear_def)
  have "mn div 12 = 0" "mn mod 12 = mn" using mn by simp_all
  then have D: "Day t = DayFromYear y + w"
    unfolding t w_def leap_def by (simp add: MakeDay_def Let_def)
  have w: "firstDayOfMonth leap mn \<le> w" "w < firstDayOfMonth leap (mn + 1)"
    using dt unfolding w_def leap_def by linarith+
  have w0: "0 \<le> w" "w < 365 + leap"
    using w leap month_cases [OF mn] by (auto simp: firstDayOfMonth_def)
  have Y: "YearFromTime t = y"
    unfolding YearFromTime_def
    by (rule YearFromDay_unique) (use D w0 len DayFromYear_step [of y] in linarith)+
  have L: "InLeapYear t = leap" by (simp add: InLeapYear_def Y leap_def)
  have W: "DayWithinYear t = w" by (simp add: DayWithinYear_def Y D)
  have M: "MonthFromTime t = mn"
    unfolding MonthFromTime_def Let_def W L
    using w leap month_cases [OF mn] by (auto simp: firstDayOfMonth_def)
  have "DateFromTime t = dt" by (simp add: DateFromTime_def W L M w_def)
  then show ?thesis using Y M by simp
qed

text \<open>The first day of a month: the date that \<^verbatim>\<open>MakeDay\<close> makes has these fields.\<close>

lemma fields_of_first_day:
  assumes "0 \<le> mn" "mn \<le> 11"
  shows "YearFromTime (MakeDate (MakeDay y mn 1) 0) = y
    \<and> MonthFromTime (MakeDate (MakeDay y mn 1) 0) = mn
    \<and> DateFromTime (MakeDate (MakeDay y mn 1) 0) = 1"
proof -
  have D: "Day (MakeDate (MakeDay y mn 1) 0) = MakeDay y mn 1"
    by (rule Day_MakeDate) (simp_all add: msPerDay_def)
  have "1 \<le> firstDayOfMonth (leapOfYear y) (mn + 1) - firstDayOfMonth (leapOfYear y) mn"
    using month_cases [OF assms] by (auto simp: firstDayOfMonth_def leapOfYear_def)
  then show ?thesis using fields_of_MakeDay [OF assms _ _ D] by simp
qed

section \<open>The grid of a month\<close>

text \<open>A local time within a day of the range of \<^verbatim>\<open>Date\<close> is the time of a valid date.\<close>

lemma TimeClip_UTC:
  assumes "\<bar>offsetAtLocal tz x\<bar> \<le> msPerDay" and "\<bar>x\<bar> \<le> maxTime - msPerDay"
  shows "TimeClip (UTC tz x) = Some (UTC tz x)"
  using assms unfolding TimeClip_def UTC_def by (simp add: msPerDay_def maxTime_def)

text \<open>
  C5, as amended. The reference date is a date of a year outside 0 to 99, at least a
  hundred days from the ends of the range of \<^verbatim>\<open>Date\<close>; the time zone has offsets of at
  most a day, and in it a local time of the 42 days from \<open>referenceSunday\<close>, read as
  a date, is a time of the same calendar day (no change of offset skips one of these
  days or carries its midnight into the next day). Then \<open>referenceFirstDay\<close> is the
  first day of the reference month; the builder returns exactly 42 cells; in local time
  they are 42 consecutive calendar days, from the Sunday on or before the first day of
  the reference month (that day minus its day of the week); and cell 0 falls on a
  Sunday.
\<close>

theorem calendar_grid_42_days_from_sunday:
  assumes year: "\<not> (0 \<le> getFullYear tz calDate \<and> getFullYear tz calDate \<le> 99)"
    and range: "\<bar>calDate\<bar> \<le> maxTime - 100 * msPerDay"
    and small: "\<And>t. \<bar>offsetAtUTC tz t\<bar> \<le> msPerDay \<and> \<bar>offsetAtLocal tz t\<bar> \<le> msPerDay"
    and keeps: "\<And>t. referenceSunday tz calDate \<le> Day t
                  \<Longrightarrow> Day t < referenceSunday tz calDate + 42
                  \<Longrightarrow> Day (LocalTime tz (UTC tz t)) = Day t"
  shows "YearFromTime (MakeDate (referenceFirstDay tz calDate) 0) = getFullYear tz calDate
    \<and> MonthFromTime (MakeDate (referenceFirstDay tz calDate) 0) = getMonth tz calDate
    \<and> DateFromTime (MakeDate (referenceFirstDay tz calDate) 0) = 1
    \<and> (\<exists>cells. generateCalendarDays tz now (Some calDate) selected = Inr cells
          \<and> length cells = 42
          \<and> map (\<lambda>c. localDay tz (date c)) cells
              = map (\<lambda>i. referenceSunday tz calDate + int i) [0..<42]
          \<and> getDay tz (date (cells ! 0)) = 0)"
proof -
  define L0 where "L0 = LocalTime tz calDate"
  define F where "F = referenceFirstDay tz calDate"
  define W where "W = WeekDay (MakeDate F 0)"
  have msPos: "0 < msPerDay" by (simp add: msPerDay_def)
  have month: "0 \<le> getMonth tz calDate" "getMonth tz calDate \<le> 11"
    using MonthFromTime_range [of L0] by (simp_all add: getMonth_def L0_def)
  note fields = fields_of_first_day [OF month, of "getFullYear tz calDate",
      folded referenceFirstDay_def]
  have DF: "Day (MakeDate F 0) = F" by (rule Day_MakeDate) (simp_all add: msPerDay_def)
  have W: "W = (F + 4) mod 7" by (simp add: W_def WeekDay_def DF)
  have Wr: "0 \<le> W" "W \<le> 6" unfolding W by simp_all
  have sun: "referenceSunday tz calDate = F - W"
    by (simp add: referenceSunday_def F_def W_def)
  text \<open>The first day of the month is at most 30 days before the reference date.\<close>
  have F: "F = Day L0 - DateFromTime L0 + 1"
    unfolding F_def referenceFirstDay_def getFullYear_def getMonth_def L0_def
    by (rule MakeDay_of_time)
  have L0: "\<bar>L0\<bar> \<le> maxTime - 99 * msPerDay"
    using range small [of calDate] unfolding L0_def LocalTime_def by linarith
  have D0: "Day L0 * msPerDay \<le> L0" "L0 < Day L0 * msPerDay + msPerDay"
    using Day_TimeWithinDay [of L0] TimeWithinDay_range [of L0] by linarith+
  have Fb: "\<bar>F * msPerDay\<bar> \<le> maxTime - 68 * msPerDay"
  proof -
    have "Day L0 - 30 \<le> F" "F \<le> Day L0" using F DateFromTime_range [of L0] by linarith+
    then show ?thesis using L0 D0 unfolding msPerDay_def maxTime_def by linarith
  qed
  text \<open>\<^verbatim>\<open>firstDay\<close>.\<close>
  define fd where "fd = UTC tz (MakeDate F 0)"
  have yr: "(if 0 \<le> getFullYear tz calDate \<and> getFullYear tz calDate \<le> 99
             then 1900 + getFullYear tz calDate else getFullYear tz calDate)
            = getFullYear tz calDate"
    using year by simp
  have new: "newDate tz (getFullYear tz calDate) (getMonth tz calDate) 1 = Some fd"
  proof -
    have "\<bar>MakeDate F 0\<bar> \<le> maxTime - msPerDay"
      using Fb unfolding MakeDate_def msPerDay_def maxTime_def by linarith
    then have "TimeClip (UTC tz (MakeDate F 0)) = Some fd"
      unfolding fd_def using small by (intro TimeClip_UTC) simp_all
    then show ?thesis
      unfolding newDate_def Let_def yr by (simp add: F_def referenceFirstDay_def)
  qed
  have keep: "Day (LocalTime tz (UTC tz (MakeDate (F - W + k) w))) = F - W + k"
    if "0 \<le> k" "k < 42" "0 \<le> w" "w < msPerDay" for k w
  proof -
    have D: "Day (MakeDate (F - W + k) w) = F - W + k" by (rule Day_MakeDate [OF that(3,4)])
    have "Day (LocalTime tz (UTC tz (MakeDate (F - W + k) w))) = Day (MakeDate (F - W + k) w)"
      by (rule keeps) (use that D sun in simp_all)
    then show ?thesis using D by simp
  qed
  have dfd: "localDay tz fd = F"
    using keep [of W 0] Wr by (simp add: localDay_def fd_def msPerDay_def)
  have wfd: "getDay tz fd = W"
    using dfd by (simp add: getDay_def WeekDay_def localDay_def W)
  text \<open>\<^verbatim>\<open>startDate\<close>.\<close>
  define w1 where "w1 = TimeWithinDay (LocalTime tz fd)"
  have w1: "0 \<le> w1" "w1 < msPerDay" using TimeWithinDay_range by (simp_all add: w1_def)
  define start where "start = UTC tz (MakeDate (F - W) w1)"
  have x1: "\<bar>MakeDate (F - W) w1\<bar> \<le> maxTime - msPerDay"
    using Fb Wr w1 unfolding MakeDate_def msPerDay_def maxTime_def left_diff_distrib distrib_right
    by linarith
  have gs: "gridStart tz calDate = Some start"
  proof -
    have "setDate tz fd (getDate tz fd - getDay tz fd)
            = TimeClip (UTC tz (MakeDate (F - W) w1))"
      unfolding setDate_local dfd wfd w1_def by simp
    also have "\<dots> = Some start"
      unfolding start_def using small x1 by (intro TimeClip_UTC) simp_all
    finally show ?thesis by (simp add: gridStart_def new)
  qed
  have dstart: "localDay tz start = F - W"
    using keep [of 0 w1] w1 by (simp add: localDay_def start_def)
  text \<open>The cells.\<close>
  define w2 where "w2 = TimeWithinDay (LocalTime tz start)"
  have w2: "0 \<le> w2" "w2 < msPerDay" using TimeWithinDay_range by (simp_all add: w2_def)
  define cur where "cur = (\<lambda>i :: nat. UTC tz (MakeDate (F - W + int i) w2))"
  have cell: "cellDate tz start i = Some (cur i)" if "i \<in> set [0..<42]" for i
  proof -
    have i: "int i \<le> 41" using that by simp
    have "\<bar>MakeDate (F - W + int i) w2\<bar> \<le> maxTime - msPerDay"
      using Fb Wr w2 i
      unfolding MakeDate_def msPerDay_def maxTime_def left_diff_distrib distrib_right
      by linarith
    then have "TimeClip (UTC tz (MakeDate (F - W + int i) w2)) = Some (cur i)"
      unfolding cur_def using small by (intro TimeClip_UTC) simp_all
    then show ?thesis unfolding cellDate_local dstart w2_def .
  qed
  have those: "those (map (cellDate tz start) [0..<42]) = Some (map cur [0..<42])"
    by (rule those_map_Some) (rule cell)
  define cells where
    "cells = map (calendarCell tz (setHoursZero tz now) (getMonth tz calDate) selected)
               (map cur [0..<42])"
  have gen: "generateCalendarDays tz now (Some calDate) selected = Inr cells"
    unfolding cells_def by (rule generateCalendarDays_cells [OF gs those])
  have len: "length cells = 42" by (simp add: cells_def)
  have dcur: "localDay tz (cur i) = F - W + int i" if "i \<in> set [0..<42]" for i
    using keep [of "int i" w2] w2 that by (simp add: localDay_def cur_def)
  have "map (\<lambda>c. localDay tz (date c)) cells = map (\<lambda>i. localDay tz (cur i)) [0..<42]"
    unfolding cells_def map_map comp_def by (simp add: calendarCell_def)
  also have "\<dots> = map (\<lambda>i. F - W + int i) [0..<42]"
    by (rule map_cong [OF refl]) (rule dcur)
  finally have days:
    "map (\<lambda>c. localDay tz (date c)) cells = map (\<lambda>i. F - W + int i) [0..<42]" .
  have "date (cells ! 0) = cur 0"
    unfolding cells_def by (simp add: calendarCell_def upt_conv_Cons)
  then have "getDay tz (date (cells ! 0)) = (F - W + 4) mod 7"
    using dcur [of 0] by (simp add: getDay_def WeekDay_def localDay_def)
  also have "\<dots> = 0" unfolding W by presburger
  finally have sunday: "getDay tz (date (cells ! 0)) = 0" .
  show ?thesis using fields gen len days sunday unfolding sun F_def by blast
qed

text \<open>
  The zone of Beirut in 2025 satisfies the conditions on the zone: its offsets are two
  and three hours, and the local times that the start of daylight saving skips, from
  00:00 to 01:00 of 30 March, are read as times of the same day, an hour later.
\<close>

lemma Day_between:
  assumes "k * msPerDay \<le> t" and "t < k * msPerDay + msPerDay"
  shows "Day t = k"
proof -
  have "Day (MakeDate k (t - k * msPerDay)) = k"
    by (rule Day_MakeDate) (use assms in simp_all)
  then show ?thesis by (simp add: MakeDate_def)
qed

lemma zoneBeirut2025_eq: "zoneBeirut2025 = stepZone 7200000 10800000 1743285600000"
proof -
  have "MakeDate (MakeDay 2025 2 29) (22 * hour) = 1743285600000" by code_simp
  then show ?thesis by (simp add: zoneBeirut2025_def hour_def)
qed

lemma zoneBeirut2025_offsets:
  "\<bar>offsetAtUTC zoneBeirut2025 t\<bar> \<le> msPerDay \<and> \<bar>offsetAtLocal zoneBeirut2025 t\<bar> \<le> msPerDay"
  by (simp add: zoneBeirut2025_eq stepZone_def msPerDay_def)

lemma zoneBeirut2025_keeps_day:
  "Day (LocalTime zoneBeirut2025 (UTC zoneBeirut2025 t)) = Day t"
proof -
  consider "t < 1743292800000" | "1743292800000 \<le> t" "t < 1743296400000"
    | "1743296400000 \<le> t" by linarith
  then show ?thesis
  proof cases
    case 1
    then have "LocalTime zoneBeirut2025 (UTC zoneBeirut2025 t) = t"
      by (simp add: zoneBeirut2025_eq stepZone_def LocalTime_def UTC_def)
    then show ?thesis by simp
  next
    case 2
    then have "LocalTime zoneBeirut2025 (UTC zoneBeirut2025 t) = t + 3600000"
      by (simp add: zoneBeirut2025_eq stepZone_def LocalTime_def UTC_def)
    moreover have "Day t = 20177"
      by (rule Day_between) (use 2 in \<open>simp_all add: msPerDay_def\<close>)
    moreover have "Day (t + 3600000) = 20177"
      by (rule Day_between) (use 2 in \<open>simp_all add: msPerDay_def\<close>)
    ultimately show ?thesis by simp
  next
    case 3
    then have "LocalTime zoneBeirut2025 (UTC zoneBeirut2025 t) = t"
      by (simp add: zoneBeirut2025_eq stepZone_def LocalTime_def UTC_def)
    then show ?thesis by simp
  qed
qed

text \<open>
  The grid of April 2025 in Beirut, on 10 April at noon: 1 April is day 20179, a
  Tuesday, and the 42 cells are the days from Sunday 30 March, day 20177, on.
\<close>

theorem calendar_grid_42_days_from_sunday_witness:
  "getFullYear zoneBeirut2025 (utcTime 2025 3 10 9) = 2025
   \<and> getMonth zoneBeirut2025 (utcTime 2025 3 10 9) = 3
   \<and> referenceFirstDay zoneBeirut2025 (utcTime 2025 3 10 9) = 20179
   \<and> YearFromTime (MakeDate 20179 0) = 2025 \<and> MonthFromTime (MakeDate 20179 0) = 3
   \<and> DateFromTime (MakeDate 20179 0) = 1 \<and> WeekDay (MakeDate 20179 0) = 2
   \<and> (\<exists>cells. generateCalendarDays zoneBeirut2025 (utcTime 2025 3 10 9)
                 (Some (utcTime 2025 3 10 9)) ''2025-04-10'' = Inr cells
          \<and> length cells = 42
          \<and> map (\<lambda>c. localDay zoneBeirut2025 (date c)) cells = map (\<lambda>i. 20177 + int i) [0..<42]
          \<and> getDay zoneBeirut2025 (date (cells ! 0)) = 0)"
proof -
  let ?now = "utcTime 2025 3 10 9"
  have y: "getFullYear zoneBeirut2025 ?now = 2025" "getMonth zoneBeirut2025 ?now = 3"
    "referenceFirstDay zoneBeirut2025 ?now = 20179" "referenceSunday zoneBeirut2025 ?now = 20177"
    "WeekDay (MakeDate 20179 0) = 2"
    by code_simp+
  have h1: "\<not> (0 \<le> getFullYear zoneBeirut2025 ?now \<and> getFullYear zoneBeirut2025 ?now \<le> 99)"
    unfolding y by simp
  have h2: "\<bar>?now\<bar> \<le> maxTime - 100 * msPerDay" by code_simp
  note T = calendar_grid_42_days_from_sunday [of zoneBeirut2025 ?now ?now "''2025-04-10''",
      OF h1 h2 zoneBeirut2025_offsets zoneBeirut2025_keeps_day, unfolded y]
  show ?thesis using T y by simp
qed

text \<open>
  C5 as stated fails at three reference dates that the month navigation reaches,
  whatever the current time and the selected date. (1) December of the year 99,
  reached from January of the year 100: \<^verbatim>\<open>new Date(99, 11, 1)\<close> is 1 December
  1999, and the cells are days of 1999 and 2000, from 28 November 1999 (day 10923), not
  from the Sunday on or before 1 December 99 (day -683036). (2) December 2011 in Apia,
  where 30 December does not exist: the cells 33 and 34 are both 31 December. (3)
  September 275760, the month in which the range of \<^verbatim>\<open>Date\<close> ends, reached from
  August: a cell is an invalid date, and the builder throws.
\<close>

theorem calendar_grid_two_digit_year_counterexample:
  "calendarDate (goToPreviousMonth (fixedZone 0)
       ((initialCreateState 0)\<lparr>calendarDate := Some (utcTime 100 0 1 0)\<rparr>))
     = Some (utcTime 99 11 1 0)
   \<and> getFullYear (fixedZone 0) (utcTime 99 11 1 0) = 99
   \<and> getMonth (fixedZone 0) (utcTime 99 11 1 0) = 11
   \<and> referenceSunday (fixedZone 0) (utcTime 99 11 1 0) = - 683036
   \<and> (\<forall>now selected.
         \<exists>cells. generateCalendarDays (fixedZone 0) now (Some (utcTime 99 11 1 0)) selected
                   = Inr cells
          \<and> localDay (fixedZone 0) (date (cells ! 0)) = 10923
          \<and> map (\<lambda>c. getFullYear (fixedZone 0) (date c)) cells
              = replicate 34 1999 @ replicate 8 2000)
   \<and> calendarDate (goToPreviousMonth zoneApia2011
       ((initialCreateState 0)\<lparr>calendarDate := Some (utcTime 2011 11 31 10)\<rparr>))
     = Some (utcTime 2011 11 1 10)
   \<and> getFullYear zoneApia2011 (utcTime 2011 11 1 10) = 2011
   \<and> getMonth zoneApia2011 (utcTime 2011 11 1 10) = 11
   \<and> (\<forall>now selected.
         \<exists>cells. generateCalendarDays zoneApia2011 now (Some (utcTime 2011 11 1 10)) selected
                   = Inr cells
          \<and> localDay zoneApia2011 (date (cells ! 32)) = 15337
          \<and> localDay zoneApia2011 (date (cells ! 33)) = 15339
          \<and> localDay zoneApia2011 (date (cells ! 34)) = 15339
          \<and> day (cells ! 33) = 31 \<and> day (cells ! 34) = 31)
   \<and> calendarDate (goToNextMonth (fixedZone 0)
       ((initialCreateState 0)\<lparr>calendarDate := Some (utcTime 275760 7 1 0)\<rparr>))
     = Some (utcTime 275760 8 1 0)
   \<and> getFullYear (fixedZone 0) (utcTime 275760 8 1 0) = 275760
   \<and> getMonth (fixedZone 0) (utcTime 275760 8 1 0) = 8
   \<and> (\<forall>now selected.
         generateCalendarDays (fixedZone 0) now (Some (utcTime 275760 8 1 0)) selected
           = Inl RangeError)"
proof -
  let ?utc = "fixedZone 0"
  let ?cal = "utcTime 99 11 1 0"
  let ?ds = "map (\<lambda>i. 943747200000 + int i * 86400000) [0..<42]"
  have nav: "calendarDate (goToPreviousMonth ?utc
       ((initialCreateState 0)\<lparr>calendarDate := Some (utcTime 100 0 1 0)\<rparr>)) = Some ?cal"
    by code_simp
  have y: "getFullYear ?utc ?cal = 99" "getMonth ?utc ?cal = 11"
    "referenceSunday ?utc ?cal = - 683036"
    by code_simp+
  have gs: "gridStart ?utc ?cal = Some 943747200000" by code_simp
  have th: "those (map (cellDate ?utc 943747200000) [0..<42]) = Some ?ds" by code_simp
  have d0: "localDay ?utc 943747200000 = 10923" by code_simp
  have yrs': "map (\<lambda>i. getFullYear ?utc (943747200000 + int i * 86400000)) [0..<42]
               = replicate 34 1999 @ replicate 8 2000"
    by code_simp
  have one: "\<exists>cells. generateCalendarDays ?utc now (Some ?cal) selected = Inr cells
          \<and> localDay ?utc (date (cells ! 0)) = 10923
          \<and> map (\<lambda>c. getFullYear ?utc (date c)) cells = replicate 34 1999 @ replicate 8 2000"
    for now selected
  proof -
    let ?cell = "calendarCell ?utc (setHoursZero ?utc now) (getMonth ?utc ?cal) selected"
    note gen = generateCalendarDays_cells [OF gs th, of now selected]
    have c0: "date (map ?cell ?ds ! 0) = 943747200000"
      by (simp add: calendarCell_def upt_conv_Cons)
    have yrs: "map (\<lambda>c. getFullYear ?utc (date c)) (map ?cell ?ds)
               = map (\<lambda>i. getFullYear ?utc (943747200000 + int i * 86400000)) [0..<42]"
      by (simp add: calendarCell_def comp_def)
    show ?thesis using gen c0 d0 yrs yrs' by simp
  qed
  let ?calA = "utcTime 2011 11 1 10"
  let ?dsA = "map (\<lambda>i. if i < 34 then 1322388000000 + int i * 86400000
                        else 1322388000000 + int i * 86400000 - 86400000) [0..<42]"
  have navA: "calendarDate (goToPreviousMonth zoneApia2011
       ((initialCreateState 0)\<lparr>calendarDate := Some (utcTime 2011 11 31 10)\<rparr>)) = Some ?calA"
    by code_simp
  have yA: "getFullYear zoneApia2011 ?calA = 2011" "getMonth zoneApia2011 ?calA = 11"
    by code_simp+
  have gsA: "gridStart zoneApia2011 ?calA = Some 1322388000000" by code_simp
  have thA: "those (map (cellDate zoneApia2011 1322388000000) [0..<42]) = Some ?dsA" by code_simp
  have n: "?dsA ! 32 = 1325152800000" "?dsA ! 33 = 1325239200000" "?dsA ! 34 = 1325239200000"
    by code_simp+
  have len: "32 < length ?dsA" "33 < length ?dsA" "34 < length ?dsA" by simp_all
  have lA: "localDay zoneApia2011 1325152800000 = 15337"
    "localDay zoneApia2011 1325239200000 = 15339" "getDate zoneApia2011 1325239200000 = 31"
    by code_simp+
  have two: "\<exists>cells. generateCalendarDays zoneApia2011 now (Some ?calA) selected = Inr cells
          \<and> localDay zoneApia2011 (date (cells ! 32)) = 15337
          \<and> localDay zoneApia2011 (date (cells ! 33)) = 15339
          \<and> localDay zoneApia2011 (date (cells ! 34)) = 15339
          \<and> day (cells ! 33) = 31 \<and> day (cells ! 34) = 31"
    for now selected
  proof -
    let ?cellA = "calendarCell zoneApia2011 (setHoursZero zoneApia2011 now)
        (getMonth zoneApia2011 ?calA) selected"
    note genA = generateCalendarDays_cells [OF gsA thA, of now selected]
    have cA: "map ?cellA ?dsA ! 32 = ?cellA 1325152800000"
      "map ?cellA ?dsA ! 33 = ?cellA 1325239200000" "map ?cellA ?dsA ! 34 = ?cellA 1325239200000"
      unfolding nth_map [OF len(1)] nth_map [OF len(2)] nth_map [OF len(3)] n by simp_all
    have fA: "localDay zoneApia2011 (date (?cellA 1325152800000)) = 15337"
      "localDay zoneApia2011 (date (?cellA 1325239200000)) = 15339"
      "day (?cellA 1325239200000) = 31"
      using lA by (simp_all add: calendarCell_def)
    show ?thesis by (rule exI [of _ "map ?cellA ?dsA"]) (simp only: genA cA fA)
  qed
  let ?calM = "utcTime 275760 8 1 0"
  have navM: "calendarDate (goToNextMonth ?utc
       ((initialCreateState 0)\<lparr>calendarDate := Some (utcTime 275760 7 1 0)\<rparr>)) = Some ?calM"
    by code_simp
  have m: "getFullYear ?utc ?calM = 275760" "getMonth ?utc ?calM = 8" by code_simp+
  have gsM: "gridStart ?utc ?calM = Some 8639998876800000" by code_simp
  have thM: "those (map (cellDate ?utc 8639998876800000) [0..<42]) = None" by code_simp
  have three: "generateCalendarDays ?utc now (Some ?calM) selected = Inl RangeError"
    for now selected
    by (simp add: generateCalendarDays_those gsM thM)
  show ?thesis using nav y one navA yA two navM m three by simp
qed

section \<open>The flags of a cell\<close>

text \<open>
  What the loop computes for a cell: the flags compare the time value of the cell with
  that of \<^verbatim>\<open>today\<close>, local midnight of the current day, and the strings are the
  date part of \<^verbatim>\<open>toISOString\<close>, a date in UTC.
\<close>

lemma calendarCell_flags:
  "isCurrentMonth (calendarCell tz today month selected d) = (getMonth tz d = month)
   \<and> isToday (calendarCell tz today month selected d) = (today = Some d)
   \<and> isPast (calendarCell tz today month selected d) = dateLess (Some d) today
   \<and> dateString (calendarCell tz today month selected d) = isoDatePart d
   \<and> isSelected (calendarCell tz today month selected d) = (isoDatePart d = selected)"
  by (simp add: calendarCell_def)

text \<open>
  In a zone that keeps one offset every date of the loop is a local midnight, and the
  two comparisons of time values are comparisons of local calendar days: \<open>isToday\<close>
  says that the cell is the current day, \<open>isPast\<close> that it is a day before it.
\<close>

lemma TimeClip_Some: "TimeClip t = Some u \<Longrightarrow> u = t"
  by (simp add: TimeClip_def split: if_splits)

lemma fixedZone_times:
  "LocalTime (fixedZone tza) t = t + tza" "UTC (fixedZone tza) t = t - tza"
  by (simp_all add: LocalTime_def UTC_def fixedZone_def)

lemma calendar_cell_flags_fixed_zone:
  assumes gs: "gridStart (fixedZone tza) calDate = Some startDate"
    and cd: "cellDate (fixedZone tza) startDate i = Some d"
    and td: "setHoursZero (fixedZone tza) now = Some today"
  shows "isToday (calendarCell (fixedZone tza) (Some today) month selected d)
           = (localDay (fixedZone tza) d = localDay (fixedZone tza) now)
    \<and> isPast (calendarCell (fixedZone tza) (Some today) month selected d)
           = (localDay (fixedZone tza) d < localDay (fixedZone tza) now)"
proof -
  let ?z = "fixedZone tza"
  obtain fd where fd: "newDate ?z (getFullYear ?z calDate) (getMonth ?z calDate) 1 = Some fd"
    and st: "setDate ?z fd (getDate ?z fd - getDay ?z fd) = Some startDate"
    using gs by (auto simp: gridStart_def split: option.splits)
  obtain F where F: "LocalTime ?z fd = MakeDate F 0"
    using TimeClip_Some [OF fd [unfolded newDate_def Let_def]]
    by (simp add: fixedZone_times)
  have w1: "TimeWithinDay (LocalTime ?z fd) = 0"
    unfolding F by (simp add: MakeDate_def TimeWithinDay_def)
  obtain S where S: "LocalTime ?z startDate = MakeDate S 0"
    using TimeClip_Some [OF st [unfolded setDate_local w1]]
    by (simp add: fixedZone_times)
  have w2: "TimeWithinDay (LocalTime ?z startDate) = 0"
    unfolding S by (simp add: MakeDate_def TimeWithinDay_def)
  have dS: "localDay ?z startDate = S"
    unfolding localDay_def S by (rule Day_MakeDate) (simp_all add: msPerDay_def)
  have d: "d = MakeDate (S + int i) 0 - tza"
    using TimeClip_Some [OF cd [unfolded cellDate_local w2 dS]] by (simp add: fixedZone_times)
  have dd: "localDay ?z d = S + int i"
    unfolding localDay_def d fixedZone_times
    using Day_MakeDate [of 0 "S + int i"] by (simp add: msPerDay_def)
  have t: "today = MakeDate (localDay ?z now) 0 - tza"
    using TimeClip_Some [OF td [unfolded setHoursZero_def]]
    by (simp add: fixedZone_times localDay_def)
  define T where "T = localDay ?z now"
  define C where "C = S + int i"
  have eq: "(MakeDate T 0 - tza = MakeDate C 0 - tza) = (C = T)"
    by (auto simp: MakeDate_def msPerDay_def)
  have less: "(MakeDate C 0 - tza < MakeDate T 0 - tza) = (C < T)"
    by (simp add: MakeDate_def msPerDay_def)
  show ?thesis
    unfolding calendarCell_def dd unfolding d t T_def [symmetric] C_def [symmetric]
    using eq less by (simp add: dateLess_def)
qed

text \<open>
  C6 at two inputs. (1) Beirut, 10 April 2025 at noon, the calendar as it opens (the
  reference date is now, the selected date is the date string of now). The grid of
  April starts on Sunday 30 March, whose midnight the start of daylight saving skips:
  \<^verbatim>\<open>startDate\<close> is 01:00 of that day, and so is every cell, while \<^verbatim>\<open>today\<close> is
  00:00 of 10 April. Cell 11 is 10 April, the current day, in the reference month; its
  \<open>isToday\<close> is false, and so is that of every cell. (2) Eight hours east of UTC
  (no daylight saving), 22 July 2025 at 11:00, selected date \<^verbatim>\<open>2025-07-22\<close>. Cell 23
  is 22 July and is today; its \<open>dateString\<close>, read in UTC, is \<^verbatim>\<open>2025-07-21\<close> and
  its \<open>isSelected\<close> is false; cell 24, 23 July, carries \<^verbatim>\<open>2025-07-22\<close> and
  \<open>isSelected\<close>.
\<close>

theorem calendar_cell_flags_fail:
  "isoDatePart (utcTime 2025 3 10 9) = ''2025-04-10''
   \<and> localDay zoneBeirut2025 (utcTime 2025 3 10 9) = 20188
   \<and> (\<exists>cells. generateCalendarDays zoneBeirut2025 (utcTime 2025 3 10 9)
                 (Some (utcTime 2025 3 10 9)) ''2025-04-10'' = Inr cells
          \<and> localDay zoneBeirut2025 (date (cells ! 11)) = 20188
          \<and> day (cells ! 11) = 10 \<and> isCurrentMonth (cells ! 11)
          \<and> \<not> isToday (cells ! 11) \<and> \<not> isPast (cells ! 11)
          \<and> map isToday cells = replicate 42 False)
   \<and> localDay (fixedZone (8 * hour)) (utcTime 2025 6 22 3) = 20291
   \<and> (\<exists>cells. generateCalendarDays (fixedZone (8 * hour)) (utcTime 2025 6 22 3)
                 (Some (utcTime 2025 6 22 3)) ''2025-07-22'' = Inr cells
          \<and> localDay (fixedZone (8 * hour)) (date (cells ! 23)) = 20291
          \<and> day (cells ! 23) = 22 \<and> isToday (cells ! 23)
          \<and> dateString (cells ! 23) = ''2025-07-21'' \<and> \<not> isSelected (cells ! 23)
          \<and> day (cells ! 24) = 23 \<and> dateString (cells ! 24) = ''2025-07-22''
          \<and> isSelected (cells ! 24))"
proof -
  let ?now = "utcTime 2025 3 10 9"
  let ?cell = "calendarCell zoneBeirut2025 (setHoursZero zoneBeirut2025 ?now)
      (getMonth zoneBeirut2025 ?now) ''2025-04-10''"
  let ?ds = "map (\<lambda>i. 1743285600000 + int i * 86400000) [0..<42]"
  have n: "isoDatePart ?now = ''2025-04-10''" "localDay zoneBeirut2025 ?now = 20188"
    by code_simp+
  have gs: "gridStart zoneBeirut2025 ?now = Some 1743285600000" by code_simp
  have th: "those (map (cellDate zoneBeirut2025 1743285600000) [0..<42]) = Some ?ds"
    by code_simp
  note gen = generateCalendarDays_cells [OF gs th, of ?now "''2025-04-10''"]
  have len: "11 < length ?ds" by simp
  have d11: "?ds ! 11 = 1744236000000" by code_simp
  have c11: "map ?cell ?ds ! 11 = ?cell 1744236000000"
    unfolding nth_map [OF len] d11 ..
  have f: "localDay zoneBeirut2025 (date (?cell 1744236000000)) = 20188"
    "day (?cell 1744236000000) = 10" "isCurrentMonth (?cell 1744236000000)"
    "\<not> isToday (?cell 1744236000000)" "\<not> isPast (?cell 1744236000000)"
    by code_simp+
  have today: "setHoursZero zoneBeirut2025 ?now = Some 1744232400000" by code_simp
  have "map isToday (map ?cell ?ds)
          = map (\<lambda>i. Some 1744232400000 = Some (1743285600000 + int i * 86400000)) [0..<42]"
    unfolding today by (simp add: calendarCell_def comp_def)
  also have "\<dots> = replicate 42 False" by code_simp
  finally have all: "map isToday (map ?cell ?ds) = replicate 42 False" .
  have one: "\<exists>cells. generateCalendarDays zoneBeirut2025 ?now (Some ?now) ''2025-04-10'' = Inr cells
          \<and> localDay zoneBeirut2025 (date (cells ! 11)) = 20188
          \<and> day (cells ! 11) = 10 \<and> isCurrentMonth (cells ! 11)
          \<and> \<not> isToday (cells ! 11) \<and> \<not> isPast (cells ! 11)
          \<and> map isToday cells = replicate 42 False"
    by (rule exI [of _ "map ?cell ?ds"]) (simp only: gen c11 f all simp_thms)
  let ?z = "fixedZone (8 * hour)"
  let ?now8 = "utcTime 2025 6 22 3"
  let ?cell8 = "calendarCell ?z (setHoursZero ?z ?now8) (getMonth ?z ?now8) ''2025-07-22''"
  let ?ds8 = "map (\<lambda>i. 1751126400000 + int i * 86400000) [0..<42]"
  have n8: "localDay ?z ?now8 = 20291" by code_simp
  have gs8: "gridStart ?z ?now8 = Some 1751126400000" by code_simp
  have th8: "those (map (cellDate ?z 1751126400000) [0..<42]) = Some ?ds8" by code_simp
  note gen8 = generateCalendarDays_cells [OF gs8 th8, of ?now8 "''2025-07-22''"]
  have len8: "23 < length ?ds8" "24 < length ?ds8" by simp_all
  have d8: "?ds8 ! 23 = 1753113600000" "?ds8 ! 24 = 1753200000000" by code_simp+
  have c8: "map ?cell8 ?ds8 ! 23 = ?cell8 1753113600000"
    "map ?cell8 ?ds8 ! 24 = ?cell8 1753200000000"
    unfolding nth_map [OF len8(1)] nth_map [OF len8(2)] d8 by simp_all
  have f8: "localDay ?z (date (?cell8 1753113600000)) = 20291"
    "day (?cell8 1753113600000) = 22" "isToday (?cell8 1753113600000)"
    "dateString (?cell8 1753113600000) = ''2025-07-21''"
    "\<not> isSelected (?cell8 1753113600000)"
    "day (?cell8 1753200000000) = 23" "dateString (?cell8 1753200000000) = ''2025-07-22''"
    "isSelected (?cell8 1753200000000)"
    by code_simp+
  have two: "\<exists>cells. generateCalendarDays ?z ?now8 (Some ?now8) ''2025-07-22'' = Inr cells
          \<and> localDay ?z (date (cells ! 23)) = 20291
          \<and> day (cells ! 23) = 22 \<and> isToday (cells ! 23)
          \<and> dateString (cells ! 23) = ''2025-07-21'' \<and> \<not> isSelected (cells ! 23)
          \<and> day (cells ! 24) = 23 \<and> dateString (cells ! 24) = ''2025-07-22''
          \<and> isSelected (cells ! 24)"
    by (rule exI [of _ "map ?cell8 ?ds8"]) (simp only: gen8 c8 f8 simp_thms)
  show ?thesis using n one n8 two by simp
qed

section \<open>Pressing a cell\<close>

text \<open>
  C7. A press on a cell marked \<open>isPast\<close> changes nothing: the scheduled date is the
  same and the calendar is still shown. A press on any other cell, whatever its
  \<open>isCurrentMonth\<close>, sets the scheduled date to the cell's \<open>dateString\<close> and
  closes the calendar.
\<close>

theorem pressCalendarDay_rejects_past:
  "(isPast c \<longrightarrow> pressCalendarDay c s = s)
   \<and> (\<not> isPast c \<longrightarrow>
        pressCalendarDay c s = handleDateSelect (dateString c) s
        \<and> scheduledDate (formData (pressCalendarDay c s)) = dateString c
        \<and> showCalendar (pressCalendarDay c s) = False)"
  by (auto simp: pressCalendarDay_def handleDateSelect_def updateFormData_def setField_def Let_def
      split: option.splits)

text \<open>
  In the grid of July 2025 on 22 July, in UTC: the press on 29 June is rejected, the
  press on 9 August, a day of the next month, selects it.
\<close>

theorem pressCalendarDay_rejects_past_witness:
  "\<exists>cells. generateCalendarDays (fixedZone 0) 1753196400000 (Some 1753196400000) ''2025-07-22''
       = Inr cells
   \<and> isPast (cells ! 0)
   \<and> pressCalendarDay (cells ! 0) ((initialCreateState 1753196400000)\<lparr>showCalendar := True\<rparr>)
      = (initialCreateState 1753196400000)\<lparr>showCalendar := True\<rparr>
   \<and> \<not> isPast (cells ! 41)
   \<and> \<not> isCurrentMonth (cells ! 41)
   \<and> scheduledDate (formData
        (pressCalendarDay (cells ! 41)
          ((initialCreateState 1753196400000)\<lparr>showCalendar := True\<rparr>))) = ''2025-08-09''
   \<and> showCalendar
        (pressCalendarDay (cells ! 41)
          ((initialCreateState 1753196400000)\<lparr>showCalendar := True\<rparr>)) = False"
proof -
  let ?z = "fixedZone 0"
  let ?s = "(initialCreateState 1753196400000)\<lparr>showCalendar := True\<rparr>"
  let ?cell = "calendarCell ?z (setHoursZero ?z 1753196400000) (getMonth ?z 1753196400000)
      ''2025-07-22''"
  let ?ds = "map (\<lambda>i. 1751155200000 + int i * 86400000) [0..<42]"
  have gs: "gridStart ?z 1753196400000 = Some 1751155200000" by code_simp
  have th: "those (map (cellDate ?z 1751155200000) [0..<42]) = Some ?ds" by code_simp
  note gen = generateCalendarDays_cells [OF gs th, of 1753196400000 "''2025-07-22''"]
  have len: "0 < length ?ds" "41 < length ?ds" by simp_all
  have d: "?ds ! 0 = 1751155200000" "?ds ! 41 = 1754697600000" by code_simp+
  have c: "map ?cell ?ds ! 0 = ?cell 1751155200000" "map ?cell ?ds ! 41 = ?cell 1754697600000"
    unfolding nth_map [OF len(1)] nth_map [OF len(2)] d by simp_all
  have g: "isPast (?cell 1751155200000)" "\<not> isPast (?cell 1754697600000)"
    "\<not> isCurrentMonth (?cell 1754697600000)"
    "dateString (?cell 1754697600000) = ''2025-08-09''"
    by code_simp+
  note A = pressCalendarDay_rejects_past [of "?cell 1751155200000" ?s]
  note B = pressCalendarDay_rejects_past [of "?cell 1754697600000" ?s]
  from A g(1) have a: "pressCalendarDay (?cell 1751155200000) ?s = ?s" by blast
  from B g(2) have b:
    "scheduledDate (formData (pressCalendarDay (?cell 1754697600000) ?s))
       = dateString (?cell 1754697600000)"
    "showCalendar (pressCalendarDay (?cell 1754697600000) ?s) = False" by blast+
  show ?thesis
    by (rule exI [of _ "map ?cell ?ds"]) (simp only: gen c g a b simp_thms)
qed

section \<open>Validation of the form\<close>

text \<open>
  The four rules of \<open>validateForm\<close>, each on its own field, all of them evaluated;
  the result is true when no rule gave an error.
\<close>

lemma errorCount_zero: "(errorCount e = 0) = (e = noErrors)"
  by (cases e) (auto simp: errorCount_def noErrors_def)

lemma validateForm_rules:
  "fst (validateForm implParse tz now fd)
     = \<lparr>sheetNameError =
          (if trim (sheetName fd) = [] then Some ''Sheet name is required''
           else if length (trim (sheetName fd)) < 3
           then Some ''Sheet name must be at least 3 characters'' else None),
        locationError =
          (if trim (formLocation fd) = [] then Some ''Location is required'' else None),
        createdByError =
          (if trim (createdBy fd) = [] then Some ''Created by field is required'' else None),
        scheduledDateError =
          (if scheduledDate fd = [] then Some ''Scheduled date is required''
           else if dateLess (newDateOfString implParse (scheduledDate fd)) (setHoursZero tz now)
           then Some ''Scheduled date cannot be in the past'' else None)\<rparr>
   \<and> snd (validateForm implParse tz now fd) = (fst (validateForm implParse tz now fd) = noErrors)"
  by (simp add: validateForm_def Let_def errorCount_zero)

text \<open>
  The rule of the scheduled date, for a date string of the form \<^verbatim>\<open>YYYY-MM-DD\<close> that
  names the day \<open>d\<close>: the code compares midnight of \<open>d\<close> in UTC with midnight of
  today in local time. In a zone at the offset \<open>tza\<close> from UTC eastwards, up to a
  day, this is \<open>d\<close> strictly before today; west of UTC, today is rejected too.
\<close>

lemma parseISODate_midnight:
  assumes "parseISODate s = Some t"
  shows "\<exists>d. t = d * msPerDay"
  using assms by (auto simp: parseISODate_def Let_def MakeDate_def split: if_splits)

lemma validateForm_date_rule:
  assumes "scheduledDate fd \<noteq> []" and "parseISODate (scheduledDate fd) = Some (d * msPerDay)"
    and "setHoursZero (fixedZone tza) now = Some today"
  shows "today = localDay (fixedZone tza) now * msPerDay - tza
    \<and> scheduledDateError (fst (validateForm implParse (fixedZone tza) now fd))
     = (if d * msPerDay + tza < localDay (fixedZone tza) now * msPerDay
        then Some ''Scheduled date cannot be in the past'' else None)"
proof -
  have t: "today = localDay (fixedZone tza) now * msPerDay - tza"
    using assms(3)
    by (auto simp: setHoursZero_def TimeClip_def UTC_def MakeDate_def fixedZone_def localDay_def
        split: if_splits)
  have "dateLess (newDateOfString implParse (scheduledDate fd)) (setHoursZero (fixedZone tza) now)
          = (d * msPerDay + tza < localDay (fixedZone tza) now * msPerDay)"
    unfolding assms(3) t using assms(2) by (auto simp: dateLess_def newDateOfString_def)
  then show ?thesis using assms(1) t by (simp add: validateForm_rules)
qed

lemma validateForm_date_rule_east:
  assumes "scheduledDate fd \<noteq> []" and "parseISODate (scheduledDate fd) = Some (d * msPerDay)"
    and "setHoursZero (fixedZone tza) now = Some today"
    and "0 \<le> tza" "tza < msPerDay"
  shows "scheduledDateError (fst (validateForm implParse (fixedZone tza) now fd))
     = (if d < localDay (fixedZone tza) now
        then Some ''Scheduled date cannot be in the past'' else None)"
proof -
  have "(d * msPerDay + tza < localDay (fixedZone tza) now * msPerDay)
          = (d < localDay (fixedZone tza) now)"
    using assms(4,5) unfolding msPerDay_def by linarith
  then show ?thesis using validateForm_date_rule [OF assms(1,2,3)] by simp
qed

lemma validateForm_date_rule_west:
  assumes "scheduledDate fd \<noteq> []"
    and "parseISODate (scheduledDate fd) = Some (localDay (fixedZone tza) now * msPerDay)"
    and "setHoursZero (fixedZone tza) now = Some today"
    and "tza < 0"
  shows "scheduledDateError (fst (validateForm implParse (fixedZone tza) now fd))
     = Some ''Scheduled date cannot be in the past''"
  using validateForm_date_rule [OF assms(1,2,3)] assms(4) by simp

text \<open>
  C4 at a scheduled date that is today, five hours west of UTC. It is 22 July 2025,
  10:00 local time; the form is complete and its scheduled date is \<^verbatim>\<open>2025-07-22\<close>,
  which is today and which the calendar offers as today, not past. \<open>validateForm\<close>
  reads the string as midnight in UTC and compares it with local midnight, five hours
  later: it reports that the date is in the past, and the form cannot be submitted.
\<close>

theorem validateForm_rejects_today_west_of_UTC:
  "Day (LocalTime (fixedZone (- 18000000)) 1753196400000) = 20291
   \<and> parseISODate ''2025-07-22'' = Some (20291 * msPerDay)
   \<and> validateForm (\<lambda>s. None) (fixedZone (- 18000000)) 1753196400000
        \<lparr>sheetName = ''Q3 count'', description = '''', formLocation = ''Warehouse A'',
         createdBy = ''JOJO'', scheduledDate = ''2025-07-22''\<rparr>
      = (\<lparr>sheetNameError = None, locationError = None, createdByError = None,
          scheduledDateError = Some ''Scheduled date cannot be in the past''\<rparr>, False)
   \<and> (\<exists>cells. generateCalendarDays (fixedZone (- 18000000)) 1753196400000
                 (Some 1753196400000) ''2025-07-22'' = Inr cells
          \<and> isToday (cells ! 23) \<and> \<not> isPast (cells ! 23)
          \<and> dateString (cells ! 23) = ''2025-07-22'')"
proof -
  let ?z = "fixedZone (- 18000000)"
  let ?cell = "calendarCell ?z (setHoursZero ?z 1753196400000) (getMonth ?z 1753196400000)
      ''2025-07-22''"
  let ?ds = "map (\<lambda>i. 1751173200000 + int i * 86400000) [0..<42]"
  have gs: "gridStart ?z 1753196400000 = Some 1751173200000" by code_simp
  have th: "those (map (cellDate ?z 1751173200000) [0..<42]) = Some ?ds" by code_simp
  note gen = generateCalendarDays_cells [OF gs th, of 1753196400000 "''2025-07-22''"]
  have len: "23 < length ?ds" by simp
  have d: "?ds ! 23 = 1753160400000" by code_simp
  have c: "map ?cell ?ds ! 23 = ?cell 1753160400000" unfolding nth_map [OF len] d ..
  have g: "isToday (?cell 1753160400000)" "\<not> isPast (?cell 1753160400000)"
    "dateString (?cell 1753160400000) = ''2025-07-22''"
    by code_simp+
  have cal: "\<exists>cells. generateCalendarDays ?z 1753196400000 (Some 1753196400000) ''2025-07-22''
                 = Inr cells
          \<and> isToday (cells ! 23) \<and> \<not> isPast (cells ! 23)
          \<and> dateString (cells ! 23) = ''2025-07-22''"
    by (rule exI [of _ "map ?cell ?ds"]) (simp only: gen c g simp_thms)
  have v: "Day (LocalTime ?z 1753196400000) = 20291"
    "parseISODate ''2025-07-22'' = Some (20291 * msPerDay)"
    "validateForm (\<lambda>s. None) ?z 1753196400000
        \<lparr>sheetName = ''Q3 count'', description = '''', formLocation = ''Warehouse A'',
         createdBy = ''JOJO'', scheduledDate = ''2025-07-22''\<rparr>
      = (\<lparr>sheetNameError = None, locationError = None, createdByError = None,
          scheduledDateError = Some ''Scheduled date cannot be in the past''\<rparr>, False)"
    by code_simp+
  show ?thesis using cal v by simp
qed

text \<open>The form of the specification's example, validated on 22 July 2025 in UTC.\<close>

lemma validateForm_example:
  "validateForm (\<lambda>s. None) (fixedZone 0) 1753196400000
        \<lparr>sheetName = ''ab'', description = '''', formLocation = '''',
         createdBy = ''X'', scheduledDate = ''2000-01-01''\<rparr>
      = (\<lparr>sheetNameError = Some ''Sheet name must be at least 3 characters'',
          locationError = Some ''Location is required'', createdByError = None,
          scheduledDateError = Some ''Scheduled date cannot be in the past''\<rparr>, False)"
  by code_simp

end
